theory Spec2Isabelle
  imports Main "HOL-Library.Multiset" "HOL-Library.Char_ord" "HOL-Library.List_Lexorder"
begin

section \<open>Data model (types.ts)\<close>

datatype SubscriptionStatus = Active | ExpiringSoon | Expired

datatype AccountType = Share | Private

text \<open>The string values of the two TypeScript enums.\<close>

fun status_string :: "SubscriptionStatus \<Rightarrow> string" where
  "status_string Active = ''Active''"
| "status_string ExpiringSoon = ''Expiring Soon''"
| "status_string Expired = ''Expired''"

fun accountType_string :: "AccountType \<Rightarrow> string" where
  "accountType_string Share = ''Share''"
| "accountType_string Private = ''Private''"

text \<open>
  \<^verbatim>\<open>interface Customer\<close>. The fields \<^verbatim>\<open>id\<close> and \<^verbatim>\<open>note\<close> are called \<open>id_field\<close>
  and \<open>note_field\<close>: \<open>id\<close> is the identity function of HOL and \<open>note\<close> a keyword. The
  two \<^verbatim>\<open>number\<close> fields hold integers.
\<close>

record Customer =
  id_field :: string
  customerName :: string
  profileName :: string
  startDate :: string
  monthsPaid :: int
  amount :: int
  note_field :: string
  netflixEmail :: string
  accountType :: AccountType

record MonthlyRecord =
  month :: string
  activeUsers :: nat
  totalIncome :: int

section \<open>The Date object of the runtime\<close>

text \<open>
  A time value is a number of milliseconds since the epoch; the time value of an invalid
  Date is NaN, here \<open>None\<close>. The functions below are the abstract operations of the
  language standard.
\<close>

type_synonym Date = "int option"

definition msPerDay :: int where
  "msPerDay = 86400000"

definition Day :: "int \<Rightarrow> int" where
  "Day t = t div msPerDay"

definition TimeWithinDay :: "int \<Rightarrow> int" where
  "TimeWithinDay t = t mod msPerDay"

definition DaysInYear :: "int \<Rightarrow> int" where
  "DaysInYear y =
     (if y mod 4 \<noteq> 0 then 365
      else if y mod 100 \<noteq> 0 then 366
      else if y mod 400 \<noteq> 0 then 365
      else 366)"

definition DayFromYear :: "int \<Rightarrow> int" where
  "DayFromYear y =
     365 * (y - 1970) + (y - 1969) div 4 - (y - 1901) div 100 + (y - 1601) div 400"

definition TimeFromYear :: "int \<Rightarrow> int" where
  "TimeFromYear y = msPerDay * DayFromYear y"

text \<open>
  The standard specifies \<open>YearFromTime t\<close> as the largest \<open>y\<close> with
  \<open>TimeFromYear y \<le> t\<close>. It is computed from the mean length of a year, which is off
  by at most one year.
\<close>

definition YearFromDay :: "int \<Rightarrow> int" where
  "YearFromDay d =
     (let y0 = 1970 + (400 * d) div 146097
      in if d < DayFromYear y0 then y0 - 1
         else if DayFromYear (y0 + 1) \<le> d then y0 + 1
         else y0)"

definition YearFromTime :: "int \<Rightarrow> int" where
  "YearFromTime t = YearFromDay (Day t)"

definition InLeapYear :: "int \<Rightarrow> int" where
  "InLeapYear t = (if DaysInYear (YearFromTime t) = 366 then 1 else 0)"

definition DayWithinYear :: "int \<Rightarrow> int" where
  "DayWithinYear t = Day t - DayFromYear (YearFromTime t)"

text \<open>Months are numbered from 0 (January) to 11 (December).\<close>

definition MonthFromTime :: "int \<Rightarrow> int" where
  "MonthFromTime t =
     (let d = DayWithinYear t; l = InLeapYear t
      in if d < 31 then 0
         else if d < 59 + l then 1
         else if d < 90 + l then 2
         else if d < 120 + l then 3
         else if d < 151 + l then 4
         else if d < 181 + l then 5
         else if d < 212 + l then 6
         else if d < 243 + l then 7
         else if d < 273 + l then 8
         else if d < 304 + l then 9
         else if d < 334 + l then 10
         else 11)"

definition DateFromTime :: "int \<Rightarrow> int" where
  "DateFromTime t =
     (let d = DayWithinYear t; l = InLeapYear t; m = MonthFromTime t
      in if m = 0 then d + 1
         else if m = 1 then d - 30
         else if m = 2 then d - 58 - l
         else if m = 3 then d - 89 - l
         else if m = 4 then d - 119 - l
         else if m = 5 then d - 150 - l
         else if m = 6 then d - 180 - l
         else if m = 7 then d - 211 - l
         else if m = 8 then d - 242 - l
         else if m = 9 then d - 272 - l
         else if m = 10 then d - 303 - l
         else d - 333 - l)"

text \<open>
  \<open>DaysBeforeMonth y m\<close> is the day within year \<open>y\<close> of the first day of month \<open>m\<close>,
  and \<open>DaysInMonth y m\<close> the length of that month.
\<close>

definition DaysBeforeMonth :: "int \<Rightarrow> int \<Rightarrow> int" where
  "DaysBeforeMonth y m =
     (let l = (if DaysInYear y = 366 then 1 else 0)
      in if m = 0 then 0
         else if m = 1 then 31
         else if m = 2 then 59 + l
         else if m = 3 then 90 + l
         else if m = 4 then 120 + l
         else if m = 5 then 151 + l
         else if m = 6 then 181 + l
         else if m = 7 then 212 + l
         else if m = 8 then 243 + l
         else if m = 9 then 273 + l
         else if m = 10 then 304 + l
         else 334 + l)"

definition DaysInMonth :: "int \<Rightarrow> int \<Rightarrow> int" where
  "DaysInMonth y m =
     (if m = 1 then (if DaysInYear y = 366 then 29 else 28)
      else if m = 3 \<or> m = 5 \<or> m = 8 \<or> m = 10 then 30
      else 31)"

text \<open>
  \<open>MakeDay year month date\<close>: the standard asks for the day number of the first of
  month \<open>month mod 12\<close> of year \<open>year + month div 12\<close> (floor division), plus
  \<open>date - 1\<close>. Nothing bounds \<open>date\<close>, which is how a day beyond the end of a
  month runs over into the next one.
\<close>

definition MakeDay :: "int \<Rightarrow> int \<Rightarrow> int \<Rightarrow> int" where
  "MakeDay year mon date =
     (let ym = year + mon div 12; mn = mon mod 12
      in DayFromYear ym + DaysBeforeMonth ym mn + date - 1)"

definition MakeTime :: "int \<Rightarrow> int \<Rightarrow> int \<Rightarrow> int \<Rightarrow> int" where
  "MakeTime h m s ms = h * 3600000 + m * 60000 + s * 1000 + ms"

definition MakeDate :: "int \<Rightarrow> int \<Rightarrow> int" where
  "MakeDate day time = day * msPerDay + time"

text \<open>
  The local time zone belongs to the runtime. It is the parameter \<open>tza\<close>, the standard's
  \<open>LocalTZA(t, isUTC)\<close>: \<open>tza t True\<close> is the offset of local time from UTC, in
  milliseconds, at the time value \<open>t\<close>, and \<open>tza t False\<close> the offset at the local time
  \<open>t\<close>. The two differ across a change to or from daylight saving time.
\<close>

type_synonym LocalTZA = "int \<Rightarrow> bool \<Rightarrow> int"

definition LocalTime :: "LocalTZA \<Rightarrow> int \<Rightarrow> int" where
  "LocalTime tza t = t + tza t True"

definition UTC :: "LocalTZA \<Rightarrow> int \<Rightarrow> int" where
  "UTC tza t = t - tza t False"

definition TimeClip :: "int \<Rightarrow> Date" where
  "TimeClip t = (if \<bar>t\<bar> > 8640000000000000 then None else Some t)"

subsection \<open>Parsing a date string\<close>

text \<open>
  \<^verbatim>\<open>new Date(s)\<close> for a string belongs to the runtime as well: it is the parameter
  \<open>parse\<close> of the functions below. The standard fixes what it returns for the date-only
  form YYYY-MM-DD, the format that \<^verbatim>\<open>types.ts\<close> documents for \<^verbatim>\<open>startDate\<close>: midnight
  UTC of that day. What else it reads, and how, differs between engines.
\<close>

definition digit_of :: "char \<Rightarrow> int option" where
  "digit_of c =
     (let n = (of_char c :: nat) in if 48 \<le> n \<and> n \<le> 57 then Some (int n - 48) else None)"

fun digits_value :: "int \<Rightarrow> string \<Rightarrow> int option" where
  "digits_value acc [] = Some acc"
| "digits_value acc (c # cs) =
     (case digit_of c of None \<Rightarrow> None | Some d \<Rightarrow> digits_value (10 * acc + d) cs)"

text \<open>
  The year, the month (from 1) and the day written in a string of the form YYYY-MM-DD.
\<close>

definition written_date :: "string \<Rightarrow> (int \<times> int \<times> int) option" where
  "written_date s =
     (if length s = 10 \<and> s ! 4 = CHR ''-'' \<and> s ! 7 = CHR ''-'' then
        (case (digits_value 0 (take 4 s), digits_value 0 (take 2 (drop 5 s)),
               digits_value 0 (drop 8 s)) of
           (Some y, Some m, Some d) \<Rightarrow>
             if 1 \<le> m \<and> m \<le> 12 \<and> 1 \<le> d \<and> d \<le> 31 then Some (y, m, d) else None
         | _ \<Rightarrow> None)
      else None)"

text \<open>Midnight UTC of a day given by year, month (from 1) and day of the month.\<close>

definition utc_midnight :: "int \<Rightarrow> int \<Rightarrow> int \<Rightarrow> int" where
  "utc_midnight y m d = MakeDate (MakeDay y (m - 1) d) 0"

text \<open>
  A parser that reads the date-only form as the standard says and nothing else. It is the
  parser of the examples, which hold dates of that form and one string that no engine
  reads as a date.
\<close>

definition parse_date_only :: "string \<Rightarrow> Date" where
  "parse_date_only s =
     (case written_date s of
        None \<Rightarrow> None
      | Some (y, m, d) \<Rightarrow> TimeClip (utc_midnight y m d))"

subsection \<open>The Date methods the application calls\<close>

text \<open>\<^verbatim>\<open>d.getMonth()\<close>: the month of the local time, NaN for an invalid Date.\<close>

definition getMonth :: "LocalTZA \<Rightarrow> Date \<Rightarrow> int option" where
  "getMonth tza d = (case d of None \<Rightarrow> None | Some t \<Rightarrow> Some (MonthFromTime (LocalTime tza t)))"

definition getFullYear :: "LocalTZA \<Rightarrow> Date \<Rightarrow> int option" where
  "getFullYear tza d = (case d of None \<Rightarrow> None | Some t \<Rightarrow> Some (YearFromTime (LocalTime tza t)))"

text \<open>
  \<^verbatim>\<open>d.setMonth(m)\<close>: year, day of the month and time of day of the local time are
  kept, the month is replaced, and the result is converted back and clipped. An invalid
  Date stays invalid, and so does any Date when \<open>m\<close> is NaN.
\<close>

definition setMonth :: "LocalTZA \<Rightarrow> Date \<Rightarrow> int option \<Rightarrow> Date" where
  "setMonth tza d m =
     (case d of
        None \<Rightarrow> None
      | Some t \<Rightarrow>
          (case m of
             None \<Rightarrow> None
           | Some mon \<Rightarrow>
               (let lt = LocalTime tza t;
                    newDate = MakeDate (MakeDay (YearFromTime lt) mon (DateFromTime lt))
                                (TimeWithinDay lt)
                in TimeClip (UTC tza newDate))))"

text \<open>\<^verbatim>\<open>d.setHours(0, 0, 0, 0)\<close>: midnight of the local day of \<open>d\<close>.\<close>

definition setHours0 :: "LocalTZA \<Rightarrow> Date \<Rightarrow> Date" where
  "setHours0 tza d =
     (case d of
        None \<Rightarrow> None
      | Some t \<Rightarrow> TimeClip (UTC tza (MakeDate (Day (LocalTime tza t)) (MakeTime 0 0 0 0))))"

text \<open>
  \<^verbatim>\<open>new Date(year, month, date)\<close>: local midnight of that day. A year from 0 to 99
  stands for 1900 + year.
\<close>

definition full_year :: "int \<Rightarrow> int" where
  "full_year y = (if 0 \<le> y \<and> y \<le> 99 then 1900 + y else y)"

definition Date_of_fields :: "LocalTZA \<Rightarrow> int \<Rightarrow> int \<Rightarrow> int \<Rightarrow> Date" where
  "Date_of_fields tza y m dt = TimeClip (UTC tza (MakeDate (MakeDay (full_year y) m dt) 0))"

section \<open>Status calculator (App.tsx, calculateSubscriptionDetails)\<close>

record ProcessedCustomer = Customer +
  expiryDate :: Date
  daysLeft :: "int option"
  status :: SubscriptionStatus

record SubscriptionDetails =
  sd_expiryDate :: Date
  sd_daysLeft :: "int option"
  sd_status :: SubscriptionStatus

text \<open>
  \<^verbatim>\<open>expiryDate.setMonth(expiryDate.getMonth() + customer.monthsPaid)\<close> on a copy of the
  parsed start date.
\<close>

definition expiry_of :: "(string \<Rightarrow> Date) \<Rightarrow> LocalTZA \<Rightarrow> string \<Rightarrow> int \<Rightarrow> Date" where
  "expiry_of parse tza start months =
     (let startDate = parse start;
          expiryDate = startDate
      in setMonth tza expiryDate (map_option (\<lambda>m. m + months) (getMonth tza expiryDate)))"

text \<open>
  \<^verbatim>\<open>Math.ceil(timeDiff / (1000 * 3600 * 24))\<close>. The time values are integers. When
  their difference is below \<open>2^53\<close> in size, as it is for every clock reading of this era,
  the subtraction is exact, and the rounded quotient of the two doubles has the ceiling of
  the exact quotient: the quotient is below \<open>2^27\<close>, where doubles are spaced more finely
  than the distance \<open>1 / 86400000\<close> that a quotient keeps from the integers it does not
  equal.
\<close>

definition ceil_days :: "int \<Rightarrow> int" where
  "ceil_days timeDiff = - ((- timeDiff) div (1000 * 3600 * 24))"

text \<open>
  \<open>now\<close> is the time value of \<^verbatim>\<open>new Date()\<close>. A comparison with NaN is false, so an
  invalid expiry date leaves the initial status \<open>Active\<close>.
\<close>

definition calculateSubscriptionDetails ::
  "(string \<Rightarrow> Date) \<Rightarrow> LocalTZA \<Rightarrow> int \<Rightarrow> 'a Customer_scheme \<Rightarrow> SubscriptionDetails" where
  "calculateSubscriptionDetails parse tza now customer =
     (let expiry = expiry_of parse tza (startDate customer) (monthsPaid customer);
          today = setHours0 tza (Some now);
          timeDiff = (case (expiry, today) of (Some e, Some t) \<Rightarrow> Some (e - t) | _ \<Rightarrow> None);
          days = map_option ceil_days timeDiff;
          st = (case days of
                  None \<Rightarrow> Active
                | Some n \<Rightarrow> if n \<le> 0 then Expired else if n \<le> 7 then ExpiringSoon else Active)
      in \<lparr> sd_expiryDate = expiry, sd_daysLeft = days, sd_status = st \<rparr>)"

section \<open>Shifting a calendar date by months, as the specification words it\<close>

text \<open>
  The year, month (from 0) and day of the month of a time value.
\<close>

definition date_fields :: "int \<Rightarrow> int \<times> int \<times> int" where
  "date_fields t = (YearFromTime t, MonthFromTime t, DateFromTime t)"

text \<open>
  A date shifted forward by \<open>n\<close> calendar months: the month advances by \<open>n\<close>, carrying
  into the year, and the day of the month is kept. When the target month has no such day
  (31 January plus one month), the days beyond its end are counted into the following
  month.
\<close>

definition shift_months :: "int \<times> int \<times> int \<Rightarrow> int \<Rightarrow> int \<times> int \<times> int" where
  "shift_months ymd n =
     (case ymd of
        (y, m, d) \<Rightarrow>
          (let ym = y + (m + n) div 12; mn = (m + n) mod 12
           in if d \<le> DaysInMonth ym mn then (ym, mn, d)
              else if mn = 11 then (ym + 1, 0, d - DaysInMonth ym mn)
              else (ym, mn + 1, d - DaysInMonth ym mn)))"

section \<open>Numbers as strings\<close>

text \<open>
  \<^verbatim>\<open>String(n)\<close> of an integer below \<open>10^21\<close> in size, which covers every time value and
  every list index: the decimal digits, after a minus sign when negative.
\<close>

definition digit_char :: "int \<Rightarrow> char" where
  "digit_char d =
     (if d = 0 then CHR ''0'' else if d = 1 then CHR ''1'' else if d = 2 then CHR ''2''
      else if d = 3 then CHR ''3'' else if d = 4 then CHR ''4'' else if d = 5 then CHR ''5''
      else if d = 6 then CHR ''6'' else if d = 7 then CHR ''7'' else if d = 8 then CHR ''8''
      else CHR ''9'')"

function digits_of :: "int \<Rightarrow> string" where
  "digits_of n =
     (if n < 10 then [digit_char n] else digits_of (n div 10) @ [digit_char (n mod 10)])"
  by pat_completeness auto
termination
  by (relation "measure nat") auto

declare digits_of.simps [simp del]

definition string_of_int :: "int \<Rightarrow> string" where
  "string_of_int i = (if i < 0 then CHR ''-'' # digits_of (- i) else digits_of i)"

definition string_of_nat :: "nat \<Rightarrow> string" where
  "string_of_nat n = digits_of (int n)"

section \<open>CRUD operations (App.tsx)\<close>

text \<open>
  \<^verbatim>\<open>handleDeleteCustomer\<close>. \<open>confirmed\<close> is the answer of \<^verbatim>\<open>window.confirm\<close>.
\<close>

definition handleDeleteCustomer :: "bool \<Rightarrow> string \<Rightarrow> Customer list \<Rightarrow> Customer list" where
  "handleDeleteCustomer confirmed i customers =
     (if confirmed then filter (\<lambda>c. id_field c \<noteq> i) customers else customers)"

text \<open>
  The argument of \<^verbatim>\<open>handleSaveCustomer\<close> is a \<^verbatim>\<open>Customer\<close> or an
  \<^verbatim>\<open>Omit<Customer, 'id'>\<close>; the test \<^verbatim>\<open>'id' in customerData\<close> tells them apart.
\<close>

record CustomerFields =
  cf_customerName :: string
  cf_profileName :: string
  cf_startDate :: string
  cf_monthsPaid :: int
  cf_amount :: int
  cf_note :: string
  cf_netflixEmail :: string
  cf_accountType :: AccountType

datatype CustomerData = WithId Customer | WithoutId CustomerFields

text \<open>\<open>now\<close> is the time value of \<^verbatim>\<open>new Date()\<close> when the record is created.\<close>

definition handleSaveCustomer :: "int \<Rightarrow> CustomerData \<Rightarrow> Customer list \<Rightarrow> Customer list" where
  "handleSaveCustomer now customerData customers =
     (case customerData of
        WithId c \<Rightarrow> map (\<lambda>x. if id_field x = id_field c then c else x) customers
      | WithoutId f \<Rightarrow>
          (let newCustomer =
                 \<lparr> id_field = string_of_int now, customerName = cf_customerName f,
                   profileName = cf_profileName f, startDate = cf_startDate f,
                   monthsPaid = cf_monthsPaid f, amount = cf_amount f,
                   note_field = cf_note f, netflixEmail = cf_netflixEmail f,
                   accountType = cf_accountType f \<rparr>
           in customers @ [newCustomer]))"

text \<open>
  A row of a bulk import. The rows are typed \<^verbatim>\<open>Omit<Customer, 'id'>\<close>, but the import
  defaults the five fields below, which a row may lack (\<open>None\<close>).
\<close>

record ImportRow =
  ir_customerName :: string
  ir_startDate :: string
  ir_monthsPaid :: int
  ir_profileName :: "string option"
  ir_amount :: "int option"
  ir_note :: "string option"
  ir_netflixEmail :: "string option"
  ir_accountType :: "AccountType option"

text \<open>\<^verbatim>\<open>v || d\<close> for a string or a number that may be missing.\<close>

definition or_string :: "string option \<Rightarrow> string \<Rightarrow> string" where
  "or_string v d = (case v of None \<Rightarrow> d | Some s \<Rightarrow> if s = [] then d else s)"

definition or_number :: "int option \<Rightarrow> int \<Rightarrow> int" where
  "or_number v d = (case v of None \<Rightarrow> d | Some n \<Rightarrow> if n = 0 then d else n)"

text \<open>
  \<^verbatim>\<open>handleImportCustomers\<close>. Row \<open>index\<close> reads the clock on its own: \<open>clock index\<close>
  is the time value of its \<^verbatim>\<open>new Date()\<close>. The result is the new customer list and the
  text of the alert.
\<close>

definition customersToAdd :: "(nat \<Rightarrow> int) \<Rightarrow> ImportRow list \<Rightarrow> Customer list" where
  "customersToAdd clock importedCustomers =
     map (\<lambda>(c, index).
            \<lparr> id_field = string_of_int (clock index) @ ''-'' @ string_of_nat index,
              customerName = ir_customerName c,
              profileName = or_string (ir_profileName c) [],
              startDate = ir_startDate c,
              monthsPaid = ir_monthsPaid c,
              amount = or_number (ir_amount c) 0,
              note_field = or_string (ir_note c) [],
              netflixEmail = or_string (ir_netflixEmail c) [],
              accountType = (case ir_accountType c of None \<Rightarrow> Share | Some a \<Rightarrow> a) \<rparr>)
         (zip importedCustomers [0 ..< length importedCustomers])"

definition handleImportCustomers ::
  "(nat \<Rightarrow> int) \<Rightarrow> ImportRow list \<Rightarrow> Customer list \<Rightarrow> Customer list \<times> string" where
  "handleImportCustomers clock importedCustomers prev =
     (let added = customersToAdd clock importedCustomers
      in (prev @ added,
          string_of_nat (length added) @ '' customer(s) have been imported successfully.''))"

section \<open>Filter and sort view (App.tsx, processedCustomers and displayCustomers)\<close>

text \<open>\<^verbatim>\<open>{...customer, ...calculateSubscriptionDetails(customer)}\<close>\<close>

definition process :: "(string \<Rightarrow> Date) \<Rightarrow> LocalTZA \<Rightarrow> int \<Rightarrow> Customer \<Rightarrow> ProcessedCustomer" where
  "process parse tza now customer =
     (let details = calculateSubscriptionDetails parse tza now customer
      in \<lparr> id_field = id_field customer, customerName = customerName customer,
           profileName = profileName customer, startDate = startDate customer,
           monthsPaid = monthsPaid customer, amount = amount customer,
           note_field = note_field customer, netflixEmail = netflixEmail customer,
           accountType = accountType customer,
           expiryDate = sd_expiryDate details, daysLeft = sd_daysLeft details,
           status = sd_status details \<rparr>)"

definition processedCustomers ::
  "(string \<Rightarrow> Date) \<Rightarrow> LocalTZA \<Rightarrow> int \<Rightarrow> Customer list \<Rightarrow> ProcessedCustomer list" where
  "processedCustomers parse tza now customers = map (process parse tza now) customers"

text \<open>
  \<^verbatim>\<open>filterStatus\<close> is a status or \<^verbatim>\<open>'All'\<close>; \<^verbatim>\<open>filterEmail\<close> is a string, and the string
  \<^verbatim>\<open>'All'\<close> switches the filter off.
\<close>

datatype StatusFilter = AllStatuses | OnlyStatus SubscriptionStatus

datatype Direction = ascending | descending

record SortConfig =
  key :: string
  direction :: Direction

text \<open>
  The values a property of a processed customer can have. A Date is compared through its
  time value, a number or NaN.
\<close>

datatype jsval = VUndefined | VNaN | VNum int | VStr string

definition date_value :: "Date \<Rightarrow> jsval" where
  "date_value d = (case d of None \<Rightarrow> VNaN | Some t \<Rightarrow> VNum t)"

definition number_value :: "int option \<Rightarrow> jsval" where
  "number_value n = (case n of None \<Rightarrow> VNaN | Some v \<Rightarrow> VNum v)"

text \<open>
  \<^verbatim>\<open>a[sortConfig.key]\<close>: the own properties of a processed customer; any other key gives
  \<^verbatim>\<open>undefined\<close> (the properties inherited from \<^verbatim>\<open>Object.prototype\<close> are left out).
\<close>

definition field_value :: "string \<Rightarrow> ProcessedCustomer \<Rightarrow> jsval" where
  "field_value k c =
     (if k = ''id'' then VStr (id_field c)
      else if k = ''customerName'' then VStr (customerName c)
      else if k = ''profileName'' then VStr (profileName c)
      else if k = ''startDate'' then VStr (startDate c)
      else if k = ''monthsPaid'' then VNum (monthsPaid c)
      else if k = ''amount'' then VNum (amount c)
      else if k = ''note'' then VStr (note_field c)
      else if k = ''netflixEmail'' then VStr (netflixEmail c)
      else if k = ''accountType'' then VStr (accountType_string (accountType c))
      else if k = ''expiryDate'' then date_value (expiryDate c)
      else if k = ''daysLeft'' then number_value (daysLeft c)
      else if k = ''status'' then VStr (status_string (status c))
      else VUndefined)"

text \<open>
  \<^verbatim>\<open>a < b\<close>: two strings are compared lexicographically by code unit, two numbers
  numerically, and a comparison with NaN or \<^verbatim>\<open>undefined\<close> is false. Both operands of
  the comparator come from the same property, so a string never meets a number.
  \<^verbatim>\<open>a > b\<close> is \<^verbatim>\<open>b < a\<close>.
\<close>

fun js_less :: "jsval \<Rightarrow> jsval \<Rightarrow> bool" where
  "js_less (VNum a) (VNum b) = (a < b)"
| "js_less (VStr a) (VStr b) = (a < b)"
| "js_less _ _ = False"

definition js_greater :: "jsval \<Rightarrow> jsval \<Rightarrow> bool" where
  "js_greater a b = js_less b a"

text \<open>The comparator passed to \<^verbatim>\<open>sort\<close>.\<close>

definition compare_by :: "SortConfig \<Rightarrow> ProcessedCustomer \<Rightarrow> ProcessedCustomer \<Rightarrow> int" where
  "compare_by sortConfig a b =
     (let valA = field_value (key sortConfig) a;
          valB = field_value (key sortConfig) b;
          comparison = (if js_greater valA valB then 1 else if js_less valA valB then - 1 else 0)
      in if direction sortConfig = ascending then comparison else - comparison)"

text \<open>
  \<^verbatim>\<open>Array.prototype.sort\<close> with a comparator is a stable sort: an element goes before
  the elements it does not compare greater than, and equal elements keep their order. It is
  modelled by insertion from the right. For a comparator that is not consistent, as this
  one is not once a key is NaN, the standard leaves the order to the engine; the model is
  then one such order, and not that of every engine on every list.
\<close>

fun insert_by :: "('a \<Rightarrow> 'a \<Rightarrow> int) \<Rightarrow> 'a \<Rightarrow> 'a list \<Rightarrow> 'a list" where
  "insert_by cmp x [] = [x]"
| "insert_by cmp x (y # ys) = (if cmp x y \<le> 0 then x # y # ys else y # insert_by cmp x ys)"

definition array_sort :: "('a \<Rightarrow> 'a \<Rightarrow> int) \<Rightarrow> 'a list \<Rightarrow> 'a list" where
  "array_sort cmp xs = foldr (insert_by cmp) xs []"

definition displayCustomers ::
  "StatusFilter \<Rightarrow> string \<Rightarrow> SortConfig \<Rightarrow> ProcessedCustomer list \<Rightarrow> ProcessedCustomer list" where
  "displayCustomers filterStatus filterEmail sortConfig processed =
     (let filtered1 = (case filterStatus of
                         AllStatuses \<Rightarrow> processed
                       | OnlyStatus s \<Rightarrow> filter (\<lambda>c. status c = s) processed);
          filtered2 = (if filterEmail \<noteq> ''All''
                       then filter (\<lambda>c. netflixEmail c = filterEmail) filtered1
                       else filtered1)
      in if key sortConfig \<noteq> [] then array_sort (compare_by sortConfig) filtered2
         else filtered2)"

text \<open>\<^verbatim>\<open>handleSort\<close>: the new sort configuration after a click on column \<open>k\<close>.\<close>

definition handleSort :: "string \<Rightarrow> SortConfig \<Rightarrow> SortConfig" where
  "handleSort k sortConfig =
     (let dir = (if key sortConfig = k \<and> direction sortConfig = ascending
                 then descending else ascending)
      in \<lparr> key = k, direction = dir \<rparr>)"

text \<open>
  The values that \<^verbatim>\<open><\<close> and \<^verbatim>\<open>>\<close> put in order: numbers other than NaN, and strings.
\<close>

definition comparable :: "jsval \<Rightarrow> bool" where
  "comparable v = (case v of VNum n \<Rightarrow> True | VStr s \<Rightarrow> True | VNaN \<Rightarrow> False | VUndefined \<Rightarrow> False)"

section \<open>Monthly history aggregator (App.tsx, historyData)\<close>

definition SHARE_PRICE :: int where
  "SHARE_PRICE = 8500"

definition PRIVATE_PRICE :: int where
  "PRIVATE_PRICE = 16000"

text \<open>
  \<^verbatim>\<open>a <= b\<close> and \<^verbatim>\<open>a > b\<close> on two Dates compare the time values; with an invalid Date
  on either side the comparison is false.
\<close>

definition date_le :: "Date \<Rightarrow> Date \<Rightarrow> bool" where
  "date_le a b = (case (a, b) of (Some x, Some y) \<Rightarrow> x \<le> y | _ \<Rightarrow> False)"

definition date_gt :: "Date \<Rightarrow> Date \<Rightarrow> bool" where
  "date_gt a b = (case (a, b) of (Some x, Some y) \<Rightarrow> x > y | _ \<Rightarrow> False)"

text \<open>
  The test of the inner loop for the month \<open>month\<close> (from 0) of year \<open>year\<close>:
  \<^verbatim>\<open>startDate <= monthEndDate && expiryDate > monthStartDate\<close>, where the month starts
  at \<^verbatim>\<open>new Date(year, month, 1)\<close> and ends at \<^verbatim>\<open>new Date(year, month + 1, 0)\<close>, local
  midnight of its last day.
\<close>

definition active_in_month ::
  "(string \<Rightarrow> Date) \<Rightarrow> LocalTZA \<Rightarrow> int \<Rightarrow> int \<Rightarrow> Customer \<Rightarrow> bool" where
  "active_in_month parse tza year mon customer =
     (let start = parse (startDate customer);
          expiry = expiry_of parse tza (startDate customer) (monthsPaid customer);
          monthStartDate = Date_of_fields tza year mon 1;
          monthEndDate = Date_of_fields tza year (mon + 1) 0
      in date_le start monthEndDate \<and> date_gt expiry monthStartDate)"

definition price_of :: "Customer \<Rightarrow> int" where
  "price_of customer = (if accountType customer = Private then PRIVATE_PRICE else SHARE_PRICE)"

text \<open>
  \<^verbatim>\<open>customers.forEach\<close> with its two counters: the state is
  \<open>(activeUsers, totalIncome)\<close>.
\<close>

definition count_customer ::
  "(string \<Rightarrow> Date) \<Rightarrow> LocalTZA \<Rightarrow> int \<Rightarrow> int \<Rightarrow> Customer \<Rightarrow> nat \<times> int \<Rightarrow> nat \<times> int" where
  "count_customer parse tza year mon customer acc =
     (case acc of
        (users, income) \<Rightarrow>
          if active_in_month parse tza year mon customer
          then (users + 1, income + price_of customer)
          else (users, income))"

text \<open>\<^verbatim>\<open>String(month + 1).padStart(2, '0')\<close>\<close>

definition padStart2 :: "string \<Rightarrow> string" where
  "padStart2 s = replicate (2 - length s) CHR ''0'' @ s"

text \<open>
  One round of the loop, for \<open>i\<close> months before the current month; \<open>now\<close> is the time
  value of \<^verbatim>\<open>new Date()\<close>. \<^verbatim>\<open>getFullYear\<close> and \<^verbatim>\<open>getMonth\<close> return NaN
  (\<open>None\<close>) when the first of that month is outside the range of time values: the label
  is then \<^verbatim>\<open>NaN-NaN\<close>, and every comparison of the inner loop is false.
\<close>

definition history_record ::
  "(string \<Rightarrow> Date) \<Rightarrow> LocalTZA \<Rightarrow> int \<Rightarrow> Customer list \<Rightarrow> int \<Rightarrow> MonthlyRecord" where
  "history_record parse tza now customers i =
     (let today = Some now;
          d = (case (getFullYear tza today, getMonth tza today) of
                 (Some y, Some m) \<Rightarrow> Date_of_fields tza y (m - i) 1
               | _ \<Rightarrow> None)
      in case (getFullYear tza d, getMonth tza d) of
           (Some year, Some mon) \<Rightarrow>
             (let monthString = string_of_int year @ ''-'' @ padStart2 (string_of_int (mon + 1));
                  totals = fold (count_customer parse tza year mon) customers (0, 0)
              in \<lparr> month = monthString, activeUsers = fst totals, totalIncome = snd totals \<rparr>)
         | _ \<Rightarrow> \<lparr> month = ''NaN-NaN'', activeUsers = 0, totalIncome = 0 \<rparr>)"

text \<open>\<^verbatim>\<open>for (let i = 11; i >= 0; i--)\<close>, each round pushing one record.\<close>

definition historyData ::
  "(string \<Rightarrow> Date) \<Rightarrow> LocalTZA \<Rightarrow> int \<Rightarrow> Customer list \<Rightarrow> MonthlyRecord list" where
  "historyData parse tza now customers =
     map (history_record parse tza now customers) [11, 10, 9, 8, 7, 6, 5, 4, 3, 2, 1, 0]"

section \<open>Persisted state (App.tsx, the initializers and the persistence effects)\<close>

text \<open>
  JSON values. A number is an integer here; an object is the list of its properties in
  order, with distinct keys.
\<close>

datatype json =
    JNull
  | JBool bool
  | JNum int
  | JStr string
  | JArr "json list"
  | JObj "(string \<times> json) list"

type_synonym jsobject = "(string \<times> json) list"

text \<open>
  \<^verbatim>\<open>localStorage\<close>: \<^verbatim>\<open>getItem\<close> gives the text stored under a key, or null (\<open>None\<close>).
\<close>

type_synonym Storage = "string \<Rightarrow> string option"

text \<open>
  \<^verbatim>\<open>JSON.parse\<close> and \<^verbatim>\<open>JSON.stringify\<close> belong to the runtime. The functions below
  take them as the parameters \<open>parse\<close>, where \<open>None\<close> stands for the SyntaxError thrown at
  a text that is not JSON, and \<open>stringify\<close>.
\<close>

datatype exn = SyntaxError | TypeError

text \<open>
  The property \<^verbatim>\<open>c.k\<close> of a parsed value, \<open>None\<close> for \<^verbatim>\<open>undefined\<close>. Reading a property
  of null throws; a number, a boolean, a string and an array have none of the properties
  the initializer reads.
\<close>

definition get_property :: "json \<Rightarrow> string \<Rightarrow> exn + json option" where
  "get_property c k =
     (case c of JNull \<Rightarrow> Inl TypeError | JObj kvs \<Rightarrow> Inr (map_of kvs k) | _ \<Rightarrow> Inr None)"

text \<open>Truthiness of a value that may be \<^verbatim>\<open>undefined\<close>, and \<^verbatim>\<open>a || b\<close>.\<close>

definition truthy :: "json option \<Rightarrow> bool" where
  "truthy v =
     (case v of
        None \<Rightarrow> False
      | Some JNull \<Rightarrow> False
      | Some (JBool b) \<Rightarrow> b
      | Some (JNum n) \<Rightarrow> n \<noteq> 0
      | Some (JStr s) \<Rightarrow> s \<noteq> []
      | Some (JArr xs) \<Rightarrow> True
      | Some (JObj kvs) \<Rightarrow> True)"

definition js_or :: "json option \<Rightarrow> json option \<Rightarrow> json option" where
  "js_or a b = (if truthy a then a else b)"

text \<open>
  \<^verbatim>\<open>{...c}\<close>: the own properties of an object; the elements of an array and the
  characters of a string under their indices; nothing for null, a number or a boolean.
\<close>

definition indexed :: "json list \<Rightarrow> jsobject" where
  "indexed vs = map (\<lambda>(v, i). (string_of_nat i, v)) (zip vs [0 ..< length vs])"

definition spread :: "json \<Rightarrow> jsobject" where
  "spread c =
     (case c of
        JObj kvs \<Rightarrow> kvs
      | JArr vs \<Rightarrow> indexed vs
      | JStr s \<Rightarrow> indexed (map (\<lambda>ch. JStr [ch]) s)
      | _ \<Rightarrow> [])"

text \<open>
  Writing a property keeps its place when the object has it and adds it at the end
  otherwise; \<^verbatim>\<open>delete\<close> removes it.
\<close>

fun set_property :: "string \<Rightarrow> json \<Rightarrow> jsobject \<Rightarrow> jsobject" where
  "set_property k v [] = [(k, v)]"
| "set_property k v ((k', v') # kvs) =
     (if k' = k then (k, v) # kvs else (k', v') # set_property k v kvs)"

definition delete_property :: "string \<Rightarrow> jsobject \<Rightarrow> jsobject" where
  "delete_property k kvs = filter (\<lambda>(k', v). k' \<noteq> k) kvs"

definition or_else :: "json option \<Rightarrow> json \<Rightarrow> json" where
  "or_else v d = (case js_or v (Some d) of None \<Rightarrow> d | Some x \<Rightarrow> x)"

text \<open>
  The object the callback of \<^verbatim>\<open>parsedCustomers.map\<close> builds from the own properties of
  \<open>c\<close> and the four properties it reads:
  \<^verbatim>\<open>{...c, profileName: c.profileName || '', note: c.note || c.contact || '',
  accountType: c.accountType || AccountType.Share}\<close>, then \<^verbatim>\<open>delete newCustomer.contact\<close>.
\<close>

definition new_customer ::
  "json option \<Rightarrow> json option \<Rightarrow> json option \<Rightarrow> json option \<Rightarrow> jsobject \<Rightarrow> jsobject" where
  "new_customer pn nt ct at own =
     delete_property ''contact''
       (set_property ''accountType'' (or_else at (JStr ''Share''))
          (set_property ''note'' (or_else (js_or nt ct) (JStr []))
             (set_property ''profileName'' (or_else pn (JStr [])) own)))"

text \<open>
  The callback for any element of the parsed array; for null the first property read
  throws.
\<close>

definition migrate :: "json \<Rightarrow> exn + jsobject" where
  "migrate c =
     (case (get_property c ''profileName'', get_property c ''note'', get_property c ''contact'',
            get_property c ''accountType'') of
        (Inr pn, Inr nt, Inr ct, Inr at) \<Rightarrow> Inr (new_customer pn nt ct at (spread c))
      | _ \<Rightarrow> Inl TypeError)"

text \<open>The callback on an object: the load-time migration of a stored record.\<close>

definition migrate_object :: "jsobject \<Rightarrow> jsobject" where
  "migrate_object c =
     new_customer (map_of c ''profileName'') (map_of c ''note'') (map_of c ''contact'')
       (map_of c ''accountType'') c"

fun map_result :: "('a \<Rightarrow> exn + 'b) \<Rightarrow> 'a list \<Rightarrow> exn + 'b list" where
  "map_result f [] = Inr []"
| "map_result f (x # xs) =
     (case f x of
        Inl e \<Rightarrow> Inl e
      | Inr y \<Rightarrow> (case map_result f xs of Inl e \<Rightarrow> Inl e | Inr ys \<Rightarrow> Inr (y # ys)))"

text \<open>
  The body of the \<^verbatim>\<open>try\<close> block of the customers initializer. A stored text that is
  null or empty gives the empty list; calling \<^verbatim>\<open>map\<close> on a parsed value that is not an
  array throws a TypeError.
\<close>

definition load_customers :: "(string \<Rightarrow> json option) \<Rightarrow> Storage \<Rightarrow> exn + jsobject list" where
  "load_customers parse storage =
     (case storage ''customers'' of
        None \<Rightarrow> Inr []
      | Some savedCustomers \<Rightarrow>
          if savedCustomers = [] then Inr []
          else (case parse savedCustomers of
                  None \<Rightarrow> Inl SyntaxError
                | Some (JArr parsedCustomers) \<Rightarrow> map_result migrate parsedCustomers
                | Some _ \<Rightarrow> Inl TypeError))"

text \<open>
  The initializer with its \<^verbatim>\<open>catch\<close>: the initial state and what \<^verbatim>\<open>console.error\<close>
  prints.
\<close>

definition init_customers :: "(string \<Rightarrow> json option) \<Rightarrow> Storage \<Rightarrow> jsobject list \<times> string list" where
  "init_customers parse storage =
     (case load_customers parse storage of
        Inr customers \<Rightarrow> (customers, [])
      | Inl error \<Rightarrow> ([], [''Failed to parse customers from localStorage'']))"

definition default_emails :: json where
  "default_emails = JArr [JStr ''netflix1@gmail.com'', JStr ''netflix2@gmail.com'']"

text \<open>
  The emails initializer returns whatever the stored text parses to; nothing checks that
  it is an array of strings.
\<close>

definition load_emails :: "(string \<Rightarrow> json option) \<Rightarrow> Storage \<Rightarrow> exn + json" where
  "load_emails parse storage =
     (case storage ''netflixEmails'' of
        None \<Rightarrow> Inr default_emails
      | Some savedEmails \<Rightarrow>
          if savedEmails = [] then Inr default_emails
          else (case parse savedEmails of None \<Rightarrow> Inl SyntaxError | Some v \<Rightarrow> Inr v))"

definition init_emails :: "(string \<Rightarrow> json option) \<Rightarrow> Storage \<Rightarrow> json \<times> string list" where
  "init_emails parse storage =
     (case load_emails parse storage of
        Inr emails \<Rightarrow> (emails, [])
      | Inl error \<Rightarrow> (default_emails, [''Failed to parse emails from localStorage'']))"

text \<open>The two persistence effects.\<close>

definition persist_customers :: "(json \<Rightarrow> string) \<Rightarrow> jsobject list \<Rightarrow> Storage \<Rightarrow> Storage" where
  "persist_customers stringify customers storage =
     storage(''customers'' \<mapsto> stringify (JArr (map JObj customers)))"

definition persist_emails :: "(json \<Rightarrow> string) \<Rightarrow> string list \<Rightarrow> Storage \<Rightarrow> Storage" where
  "persist_emails stringify netflixEmails storage =
     storage(''netflixEmails'' \<mapsto> stringify (JArr (map JStr netflixEmails)))"

text \<open>
  A \<^verbatim>\<open>Customer\<close> as the object it is in the state, its keys in the order of the
  interface. A record keeps the key order of its creation in the state, which for a record
  made by the form has \<^verbatim>\<open>id\<close> last; the functions above find a property by its name.
\<close>

definition customer_object :: "Customer \<Rightarrow> jsobject" where
  "customer_object c =
     [(''id'', JStr (id_field c)),
      (''customerName'', JStr (customerName c)),
      (''profileName'', JStr (profileName c)),
      (''startDate'', JStr (startDate c)),
      (''monthsPaid'', JNum (monthsPaid c)),
      (''amount'', JNum (amount c)),
      (''note'', JStr (note_field c)),
      (''netflixEmail'', JStr (netflixEmail c)),
      (''accountType'', JStr (accountType_string (accountType c)))]"

section \<open>Example data\<close>

text \<open>
  Three time zones: a zone with one offset all year, UTC, and New York in 2024, five hours
  behind UTC and four hours behind from 10 March, 2 a.m. local time, until 3 November.
\<close>

definition fixed_zone :: "int \<Rightarrow> LocalTZA" where
  "fixed_zone offset = (\<lambda>t isUTC. offset)"

definition utc_zone :: LocalTZA where
  "utc_zone = fixed_zone 0"

definition new_york_2024 :: LocalTZA where
  "new_york_2024 =
     (\<lambda>t isUTC.
        if isUTC then (if 1710054000000 \<le> t \<and> t < 1730613600000 then - 14400000 else - 18000000)
        else (if 1710039600000 \<le> t \<and> t < 1730599200000 then - 14400000 else - 18000000))"

definition example_customer :: Customer where
  "example_customer =
     \<lparr> id_field = ''1718000000000'', customerName = ''Aye'', profileName = ''P1'',
       startDate = ''2024-01-15'', monthsPaid = 2, amount = 8500, note_field = '''',
       netflixEmail = ''netflix1@gmail.com'', accountType = Share \<rparr>"

text \<open>Noon UTC of 2024-03-10, five days before \<open>example_customer\<close> expires.\<close>

definition example_now :: int where
  "example_now = 1710072000000"

text \<open>Subscriptions of one month that start on 31 January and on 1 March 2024.\<close>

definition jan31_customer :: Customer where
  "jan31_customer =
     \<lparr> id_field = ''1718000000001'', customerName = ''Bo'', profileName = ''P2'',
       startDate = ''2024-01-31'', monthsPaid = 1, amount = 16000, note_field = ''vip'',
       netflixEmail = ''netflix2@gmail.com'', accountType = Private \<rparr>"

definition march1_customer :: Customer where
  "march1_customer =
     \<lparr> id_field = ''1718000000003'', customerName = ''Khin'', profileName = ''P6'',
       startDate = ''2024-03-01'', monthsPaid = 1, amount = 8500, note_field = [],
       netflixEmail = ''netflix2@gmail.com'', accountType = Share \<rparr>"

text \<open>\<open>jan31_customer\<close> after an edit of its note: same id, new data.\<close>

definition jan31_edited :: Customer where
  "jan31_edited = jan31_customer \<lparr> note_field := ''paid in cash'', monthsPaid := 3 \<rparr>"

text \<open>The data of a new customer, as the form submits it, and two rows of an import.\<close>

definition example_fields :: CustomerFields where
  "example_fields =
     \<lparr> cf_customerName = ''Chit'', cf_profileName = ''P3'', cf_startDate = ''2024-06-01'',
       cf_monthsPaid = 1, cf_amount = 8500, cf_note = '''',
       cf_netflixEmail = ''netflix1@gmail.com'', cf_accountType = Share \<rparr>"

definition example_rows :: "ImportRow list" where
  "example_rows =
     [\<lparr> ir_customerName = ''Dwe'', ir_startDate = ''2024-05-01'', ir_monthsPaid = 1,
        ir_profileName = None, ir_amount = None, ir_note = None, ir_netflixEmail = None,
        ir_accountType = None \<rparr>,
      \<lparr> ir_customerName = ''Ei'', ir_startDate = ''2024-05-02'', ir_monthsPaid = 2,
        ir_profileName = Some ''P5'', ir_amount = Some 16000, ir_note = Some ''x'',
        ir_netflixEmail = Some ''netflix2@gmail.com'', ir_accountType = Some Private \<rparr>]"

text \<open>
  A customer whose start date cannot be parsed, between two customers with valid dates.
\<close>

definition undated_customer :: Customer where
  "undated_customer =
     \<lparr> id_field = ''1718000000002'', customerName = ''Hla'', profileName = ''P4'',
       startDate = ''unknown'', monthsPaid = 1, amount = 8500, note_field = '''',
       netflixEmail = ''netflix1@gmail.com'', accountType = Share \<rparr>"

definition mixed_customers :: "Customer list" where
  "mixed_customers = [example_customer, undated_customer, jan31_customer]"

definition two_processed :: "ProcessedCustomer list" where
  "two_processed =
     processedCustomers parse_date_only utc_zone example_now [jan31_customer, example_customer]"

definition mixed_processed :: "ProcessedCustomer list" where
  "mixed_processed = processedCustomers parse_date_only utc_zone example_now mixed_customers"

text \<open>Noon UTC of 2024-06-15: the twelve months of the history end with June 2024.\<close>

definition june_now :: int where
  "june_now = 1718452800000"

text \<open>
  A stored record from before the migration, with the legacy \<^verbatim>\<open>contact\<close> field, and a
  stand-in for \<^verbatim>\<open>JSON.parse\<close> and \<^verbatim>\<open>JSON.stringify\<close> that knows the text of one value.
\<close>

definition legacy_object :: jsobject where
  "legacy_object =
     [(''id'', JStr ''1600000000000''), (''customerName'', JStr ''Gyi''),
      (''startDate'', JStr ''2020-09-13''), (''monthsPaid'', JNum 1), (''amount'', JNum 8500),
      (''contact'', JStr ''09-123456''), (''netflixEmail'', JStr ''netflix1@gmail.com'')]"

definition stored_value :: json where
  "stored_value = JArr (map JObj [customer_object example_customer, migrate_object legacy_object])"

definition one_text_stringify :: "json \<Rightarrow> string" where
  "one_text_stringify v = (if v = stored_value then ''[stored customers]'' else ''[]'')"

definition one_text_parse :: "string \<Rightarrow> json option" where
  "one_text_parse s =
     (if s = ''[stored customers]'' then Some stored_value
      else if s = ''[]'' then Some (JArr [])
      else None)"

section \<open>Calendar arithmetic\<close>

lemma div_succ:
  fixes a k :: int
  assumes "0 < k"
  shows "(a + 1) div k = a div k + (if (a + 1) mod k = 0 then 1 else 0)"
proof -
  define q where "q = a div k"
  define r where "r = a mod k"
  have a: "a = k * q + r" and r: "0 \<le> r" "r < k"
    using assms by (simp_all add: q_def r_def)
  show ?thesis
  proof (cases "r + 1 = k")
    case True
    then have e: "a + 1 = k * (q + 1) + 0"
      using a by (simp add: algebra_simps)
    have "(a + 1) div k = q + 1"
      using assms by (intro int_div_pos_eq[OF e]) simp_all
    moreover have "(a + 1) mod k = 0"
      using assms by (intro int_mod_pos_eq[OF e]) simp_all
    ultimately show ?thesis by (simp add: q_def)
  next
    case False
    then have lt: "r + 1 < k" using r by simp
    have e: "a + 1 = k * q + (r + 1)"
      using a by simp
    have "(a + 1) div k = q"
      using r lt by (intro int_div_pos_eq[OF e]) simp_all
    moreover have "(a + 1) mod k = r + 1"
      using r lt by (intro int_mod_pos_eq[OF e]) simp_all
    ultimately show ?thesis using r by (simp add: q_def)
  qed
qed

lemma div_bounds:
  fixes a k :: int
  assumes "0 < k"
  shows "a - (k - 1) \<le> k * (a div k)" "k * (a div k) \<le> a"
proof -
  have "k * (a div k) = a - a mod k"
    by (simp add: minus_mod_eq_mult_div)
  moreover have "0 \<le> a mod k" "a mod k < k"
    using assms by simp_all
  ultimately show "a - (k - 1) \<le> k * (a div k)" "k * (a div k) \<le> a"
    by linarith+
qed

lemma leap_mod_facts:
  fixes y :: int
  shows "y mod 400 = 0 \<Longrightarrow> y mod 100 = 0" "y mod 100 = 0 \<Longrightarrow> y mod 4 = 0"
proof -
  have "(100::int) dvd 400" by simp
  then show "y mod 400 = 0 \<Longrightarrow> y mod 100 = 0"
    using dvd_trans[of 100 400 y] by (simp add: mod_eq_0_iff_dvd)
  have "(4::int) dvd 100" by simp
  then show "y mod 100 = 0 \<Longrightarrow> y mod 4 = 0"
    using dvd_trans[of 4 100 y] by (simp add: mod_eq_0_iff_dvd)
qed

lemma shifted_mod:
  fixes y :: int
  shows "(y - 1968) mod 4 = y mod 4" "(y - 1900) mod 100 = y mod 100"
    "(y - 1600) mod 400 = y mod 400"
  using mod_mult_self1[of "y - 1968" 492 4] mod_mult_self1[of "y - 1900" 19 100]
    mod_mult_self1[of "y - 1600" 4 400]
  by simp_all

lemma DayFromYear_Suc: "DayFromYear (y + 1) = DayFromYear y + DaysInYear y"
proof -
  define q4 where "q4 = (y - 1969) div 4"
  define q100 where "q100 = (y - 1901) div 100"
  define q400 where "q400 = (y - 1601) div 400"
  have a: "(y - 1968) div 4 = q4 + (if y mod 4 = 0 then 1 else 0)"
    using div_succ[of 4 "y - 1969"] by (simp add: shifted_mod q4_def)
  have b: "(y - 1900) div 100 = q100 + (if y mod 100 = 0 then 1 else 0)"
    using div_succ[of 100 "y - 1901"] by (simp add: shifted_mod q100_def)
  have c: "(y - 1600) div 400 = q400 + (if y mod 400 = 0 then 1 else 0)"
    using div_succ[of 400 "y - 1601"] by (simp add: shifted_mod q400_def)
  have l: "DayFromYear (y + 1) =
          365 * (y - 1969) + (y - 1968) div 4 - (y - 1900) div 100 + (y - 1600) div 400"
    by (simp add: DayFromYear_def)
  have r: "DayFromYear y = 365 * (y - 1970) + q4 - q100 + q400"
    by (simp add: DayFromYear_def q4_def q100_def q400_def)
  consider "y mod 4 \<noteq> 0" "y mod 100 \<noteq> 0" "y mod 400 \<noteq> 0"
    | "y mod 4 = 0" "y mod 100 \<noteq> 0" "y mod 400 \<noteq> 0"
    | "y mod 4 = 0" "y mod 100 = 0" "y mod 400 \<noteq> 0"
    | "y mod 4 = 0" "y mod 100 = 0" "y mod 400 = 0"
  proof -
    define A where "A \<longleftrightarrow> y mod 4 = 0"
    define B where "B \<longleftrightarrow> y mod 100 = 0"
    define C where "C \<longleftrightarrow> y mod 400 = 0"
    have "C \<longrightarrow> B" "B \<longrightarrow> A"
      using leap_mod_facts[of y] unfolding A_def B_def C_def by blast+
    then have "(\<not> A \<and> \<not> B \<and> \<not> C) \<or> (A \<and> \<not> B \<and> \<not> C) \<or> (A \<and> B \<and> \<not> C) \<or> (A \<and> B \<and> C)"
      by blast
    then show ?thesis
      unfolding A_def B_def C_def by (elim disjE conjE) (rule that; assumption)+
  qed
  then show ?thesis
  proof cases
    case 1
    then show ?thesis unfolding l r a b c DaysInYear_def by simp
  next
    case 2
    then show ?thesis unfolding l r a b c DaysInYear_def by simp
  next
    case 3
    then show ?thesis unfolding l r a b c DaysInYear_def by simp
  next
    case 4
    then show ?thesis unfolding l r a b c DaysInYear_def by simp
  qed
qed

lemma DaysInYear_cases: "DaysInYear y = 365 \<or> DaysInYear y = 366"
  by (simp add: DaysInYear_def)

lemma DayFromYear_lower: "146097 * (y - 1970) - 506 \<le> 400 * DayFromYear y"
proof -
  define q4 where "q4 = (y - 1969) div 4"
  define q100 where "q100 = (y - 1901) div 100"
  define q400 where "q400 = (y - 1601) div 400"
  have r: "DayFromYear y = 365 * (y - 1970) + q4 - q100 + q400"
    by (simp add: DayFromYear_def q4_def q100_def q400_def)
  have "(y - 1969) - (4 - 1) \<le> 4 * q4"
    unfolding q4_def by (rule div_bounds) simp
  then have "100 * ((y - 1969) - 3) \<le> 100 * (4 * q4)"
    by (intro mult_left_mono) simp_all
  moreover have "100 * q100 \<le> y - 1901"
    unfolding q100_def by (rule div_bounds) simp
  then have "4 * (100 * q100) \<le> 4 * (y - 1901)"
    by (intro mult_left_mono) simp_all
  moreover have "(y - 1601) - (400 - 1) \<le> 400 * q400"
    unfolding q400_def by (rule div_bounds) simp
  ultimately show ?thesis
    unfolding r by (simp add: algebra_simps)
qed

lemma DayFromYear_upper: "400 * DayFromYear y \<le> 146097 * (y - 1970) + 589"
proof -
  define q4 where "q4 = (y - 1969) div 4"
  define q100 where "q100 = (y - 1901) div 100"
  define q400 where "q400 = (y - 1601) div 400"
  have r: "DayFromYear y = 365 * (y - 1970) + q4 - q100 + q400"
    by (simp add: DayFromYear_def q4_def q100_def q400_def)
  have "4 * q4 \<le> y - 1969"
    unfolding q4_def by (rule div_bounds) simp
  then have "100 * (4 * q4) \<le> 100 * (y - 1969)"
    by (intro mult_left_mono) simp_all
  moreover have "(y - 1901) - (100 - 1) \<le> 100 * q100"
    unfolding q100_def by (rule div_bounds) simp
  then have "4 * ((y - 1901) - 99) \<le> 4 * (100 * q100)"
    by (intro mult_left_mono) simp_all
  moreover have "400 * q400 \<le> y - 1601"
    unfolding q400_def by (rule div_bounds) simp
  ultimately show ?thesis
    unfolding r by (simp add: algebra_simps)
qed

lemma DayFromYear_less_Suc: "DayFromYear y < DayFromYear (y + 1)"
  using DaysInYear_cases[of y] by (auto simp: DayFromYear_Suc)

lemma DayFromYear_mono: "y \<le> y' \<Longrightarrow> DayFromYear y \<le> DayFromYear y'"
proof (induction y' rule: int_ge_induct)
  case base
  show ?case by simp
next
  case (step i)
  then show ?case using DayFromYear_less_Suc[of i] by simp
qed

lemma YearFromDay_bounds:
  "DayFromYear (YearFromDay d) \<le> d \<and> d < DayFromYear (YearFromDay d + 1)"
proof -
  define q where "q = (400 * d) div 146097"
  define y0 where "y0 = 1970 + q"
  have "146097 * q \<le> 400 * d"
    unfolding q_def by (rule div_bounds) simp
  then have e1: "146097 * (y0 - 1970) \<le> 400 * d"
    by (simp add: y0_def)
  have "400 * d - (146097 - 1) \<le> 146097 * q"
    unfolding q_def by (rule div_bounds) simp
  then have e2: "400 * d < 146097 * (y0 - 1970) + 146097"
    by (simp add: y0_def)
  have lo: "DayFromYear (y0 - 1) \<le> d"
    using DayFromYear_upper[of "y0 - 1"] e1 by simp
  have hi: "d < DayFromYear (y0 + 1 + 1)"
    using DayFromYear_lower[of "y0 + 1 + 1"] e2 by simp
  have "YearFromDay d =
          (if d < DayFromYear y0 then y0 - 1
           else if DayFromYear (y0 + 1) \<le> d then y0 + 1 else y0)"
    by (simp add: YearFromDay_def y0_def q_def Let_def)
  then show ?thesis
    using lo hi by auto
qed

lemma YearFromDay_unique:
  assumes "DayFromYear y \<le> d" "d < DayFromYear (y + 1)"
  shows "YearFromDay d = y"
proof (rule ccontr)
  assume ne: "YearFromDay d \<noteq> y"
  let ?y = "YearFromDay d"
  show False
  proof (cases "?y < y")
    case True
    then have "DayFromYear (?y + 1) \<le> DayFromYear y"
      by (intro DayFromYear_mono) simp
    then show False
      using YearFromDay_bounds[of d] assms by simp
  next
    case False
    then have "DayFromYear (y + 1) \<le> DayFromYear ?y"
      using ne by (intro DayFromYear_mono) simp
    then show False
      using YearFromDay_bounds[of d] assms by simp
  qed
qed

text \<open>The computed year is the one the standard specifies.\<close>

lemma YearFromTime_largest:
  "TimeFromYear (YearFromTime t) \<le> t \<and> (\<forall>y. TimeFromYear y \<le> t \<longrightarrow> y \<le> YearFromTime t)"
proof (intro conjI allI impI)
  have pos: "0 < msPerDay"
    by (simp add: msPerDay_def)
  have "msPerDay * DayFromYear (YearFromDay (Day t)) \<le> msPerDay * Day t"
    using YearFromDay_bounds[of "Day t"] pos by (intro mult_left_mono) simp_all
  also have "\<dots> \<le> t"
    unfolding Day_def using pos by (rule div_bounds)
  finally show "TimeFromYear (YearFromTime t) \<le> t"
    by (simp add: TimeFromYear_def YearFromTime_def)
next
  fix y
  assume a: "TimeFromYear y \<le> t"
  have pos: "0 < msPerDay"
    by (simp add: msPerDay_def)
  have "DayFromYear y = (msPerDay * DayFromYear y) div msPerDay"
    using pos by simp
  also have "\<dots> \<le> t div msPerDay"
    using a pos unfolding TimeFromYear_def by (intro zdiv_mono1)
  finally have le: "DayFromYear y \<le> Day t"
    by (simp add: Day_def)
  show "y \<le> YearFromTime t"
  proof (rule ccontr)
    assume "\<not> y \<le> YearFromTime t"
    then have "DayFromYear (YearFromDay (Day t) + 1) \<le> DayFromYear y"
      by (intro DayFromYear_mono) (simp add: YearFromTime_def)
    then show False
      using YearFromDay_bounds[of "Day t"] le by simp
  qed
qed

lemma DayWithinYear_range:
  "0 \<le> DayWithinYear t \<and> DayWithinYear t < DaysInYear (YearFromTime t)"
  using YearFromDay_bounds[of "Day t"] DayFromYear_Suc[of "YearFromDay (Day t)"]
  by (simp add: DayWithinYear_def YearFromTime_def)

lemma InLeapYear_cases:
  "(InLeapYear t = 0 \<and> DaysInYear (YearFromTime t) = 365) \<or>
   (InLeapYear t = 1 \<and> DaysInYear (YearFromTime t) = 366)"
  using DaysInYear_cases[of "YearFromTime t"] by (auto simp: InLeapYear_def)

lemma MonthFromTime_range: "0 \<le> MonthFromTime t \<and> MonthFromTime t \<le> 11"
  by (simp add: MonthFromTime_def Let_def)

lemma month_cases:
  fixes m :: int
  assumes "0 \<le> m" "m \<le> 11"
  obtains "m = 0" | "m = 1" | "m = 2" | "m = 3" | "m = 4" | "m = 5" | "m = 6" | "m = 7"
    | "m = 8" | "m = 9" | "m = 10" | "m = 11"
proof -
  have "m = 0 \<or> m = 1 \<or> m = 2 \<or> m = 3 \<or> m = 4 \<or> m = 5 \<or> m = 6 \<or> m = 7
    \<or> m = 8 \<or> m = 9 \<or> m = 10 \<or> m = 11"
    using assms by presburger
  then show ?thesis
    by (elim disjE) (rule that; assumption)+
qed

lemma DateFromTime_range:
  "1 \<le> DateFromTime t \<and> DateFromTime t \<le> DaysInMonth (YearFromTime t) (MonthFromTime t)"
proof -
  define d where "d = DayWithinYear t"
  define l where "l = InLeapYear t"
  define n where "n = DaysInYear (YearFromTime t)"
  have r: "0 \<le> d" "d < n"
    using DayWithinYear_range[of t] by (simp_all add: d_def n_def)
  have l: "(l = 0 \<and> n = 365) \<or> (l = 1 \<and> n = 366)"
    using InLeapYear_cases[of t] by (simp add: l_def n_def)
  show ?thesis
    unfolding DateFromTime_def MonthFromTime_def DaysInMonth_def Let_def
      d_def[symmetric] l_def[symmetric] n_def[symmetric]
    using r l by auto
qed

lemma MakeDay_in_year:
  assumes "0 \<le> m" "m \<le> 11"
  shows "MakeDay y m dt = DayFromYear y + DaysBeforeMonth y m + dt - 1"
proof -
  have "m div 12 = 0" "m mod 12 = m"
    using assms by simp_all
  then show ?thesis
    by (simp add: MakeDay_def Let_def)
qed

text \<open>Every day number is the \<open>MakeDay\<close> of its own year, month and day of the month.\<close>

lemma MakeDay_of_fields:
  "MakeDay (YearFromTime t) (MonthFromTime t) (DateFromTime t) = Day t"
proof -
  define d where "d = DayWithinYear t"
  define l where "l = InLeapYear t"
  define n where "n = DaysInYear (YearFromTime t)"
  have l: "(l = 0 \<and> n = 365) \<or> (l = 1 \<and> n = 366)"
    using InLeapYear_cases[of t] by (simp add: l_def n_def)
  have "DaysBeforeMonth (YearFromTime t) (MonthFromTime t) + DateFromTime t - 1 = d"
    unfolding DateFromTime_def MonthFromTime_def DaysBeforeMonth_def Let_def
      d_def[symmetric] l_def[symmetric] n_def[symmetric]
    using l by auto
  then show ?thesis
    using MonthFromTime_range[of t]
    by (simp add: MakeDay_in_year d_def DayWithinYear_def)
qed

text \<open>
  Conversely, a day of the month that exists in month \<open>m\<close> of year \<open>y\<close> is read back
  unchanged.
\<close>

lemma fields_of_MakeDay:
  assumes m: "0 \<le> m" "m \<le> 11" and dt: "1 \<le> dt" "dt \<le> DaysInMonth y m"
    and t: "Day t = MakeDay y m dt"
  shows "YearFromTime t = y \<and> MonthFromTime t = m \<and> DateFromTime t = dt"
proof -
  define n where "n = DaysInYear y"
  define l :: int where "l = (if n = 366 then 1 else 0)"
  define d where "d = DaysBeforeMonth y m + dt - 1"
  have l: "(l = 0 \<and> n = 365) \<or> (l = 1 \<and> n = 366)"
    using DaysInYear_cases[of y] by (auto simp: l_def n_def)
  have day: "Day t = DayFromYear y + d"
    using t m by (simp add: MakeDay_in_year d_def)
  have dbm: "DaysBeforeMonth y m =
     (if m = 0 then 0 else if m = 1 then 31 else if m = 2 then 59 + l
      else if m = 3 then 90 + l else if m = 4 then 120 + l else if m = 5 then 151 + l
      else if m = 6 then 181 + l else if m = 7 then 212 + l else if m = 8 then 243 + l
      else if m = 9 then 273 + l else if m = 10 then 304 + l else 334 + l)"
    by (simp add: DaysBeforeMonth_def Let_def l_def n_def)
  have dim: "DaysInMonth y m =
     (if m = 1 then 28 + l else if m = 3 \<or> m = 5 \<or> m = 8 \<or> m = 10 then 30 else 31)"
    using l by (auto simp: DaysInMonth_def l_def n_def)
  have d: "0 \<le> d \<and> d < n"
    using m
  proof (cases m rule: month_cases)
  qed (use dt l dbm dim in \<open>auto simp: d_def\<close>)
  have y: "YearFromTime t = y"
    unfolding YearFromTime_def using d day
    by (intro YearFromDay_unique) (simp_all add: DayFromYear_Suc n_def)
  have dwy: "DayWithinYear t = d"
    by (simp add: DayWithinYear_def y day)
  have leap: "InLeapYear t = l"
    by (simp add: InLeapYear_def y l_def n_def)
  have "MonthFromTime t = m \<and> DateFromTime t = dt"
    using m
  proof (cases m rule: month_cases)
  qed (use dt l dbm dim in \<open>auto simp: MonthFromTime_def DateFromTime_def dwy leap Let_def d_def\<close>)
  then show ?thesis
    using y by simp
qed

lemma msPerDay_pos: "0 < msPerDay"
  by (simp add: msPerDay_def)

lemma TimeWithinDay_range: "0 \<le> TimeWithinDay t \<and> TimeWithinDay t < msPerDay"
  using msPerDay_pos by (simp add: TimeWithinDay_def)

lemma Day_MakeDate:
  assumes "0 \<le> tm" "tm < msPerDay"
  shows "Day (MakeDate d tm) = d" and "TimeWithinDay (MakeDate d tm) = tm"
proof -
  have e: "MakeDate d tm = msPerDay * d + tm"
    by (simp add: MakeDate_def)
  show "Day (MakeDate d tm) = d"
    unfolding Day_def using e assms by (rule int_div_pos_eq)
  show "TimeWithinDay (MakeDate d tm) = tm"
    unfolding TimeWithinDay_def using e assms by (rule int_mod_pos_eq)
qed

lemma MakeDate_Day: "MakeDate (Day t) (TimeWithinDay t) = t"
  by (simp add: MakeDate_def Day_def TimeWithinDay_def)

text \<open>A time value is determined by its date fields and its time within the day.\<close>

lemma time_value_unique:
  assumes "date_fields t = date_fields u" "TimeWithinDay t = TimeWithinDay u"
  shows "t = u"
proof -
  have "Day t = Day u"
    using assms(1) MakeDay_of_fields[of t] MakeDay_of_fields[of u]
    by (simp add: date_fields_def)
  then have "MakeDate (Day t) (TimeWithinDay t) = MakeDate (Day u) (TimeWithinDay u)"
    using assms(2) by simp
  then show ?thesis
    by (simp only: MakeDate_Day)
qed

lemma DaysInMonth_range: "28 \<le> DaysInMonth y m \<and> DaysInMonth y m \<le> 31"
  by (simp add: DaysInMonth_def)

text \<open>The first day after the end of a month is the first day of the next month.\<close>

lemma MakeDay_next_month:
  assumes "0 \<le> m" "m \<le> 11"
  shows "MakeDay y m (DaysInMonth y m + k) =
           (if m = 11 then MakeDay (y + 1) 0 k else MakeDay y (m + 1) k)"
proof (cases "m = 11")
  case True
  have "DaysInYear y = 365 \<or> DaysInYear y = 366"
    by (rule DaysInYear_cases)
  then show ?thesis
    using True
    by (auto simp: MakeDay_in_year DayFromYear_Suc DaysBeforeMonth_def DaysInMonth_def)
next
  case False
  then have m1: "0 \<le> m + 1" "m + 1 \<le> 11"
    using assms by simp_all
  have "DaysBeforeMonth y m + DaysInMonth y m = DaysBeforeMonth y (m + 1)"
    using assms
  proof (cases m rule: month_cases)
  qed (use False in \<open>auto simp: DaysBeforeMonth_def DaysInMonth_def\<close>)
  then show ?thesis
    using False assms m1 by (simp add: MakeDay_in_year)
qed

text \<open>
  \<open>MakeDay\<close> with any month number and a day of the month from 1 to 31 lands on the
  date that \<open>shift_months\<close> describes.
\<close>

lemma fields_of_shifted_day:
  assumes dt: "1 \<le> dt" "dt \<le> 31" and t: "Day t = MakeDay y (m + n) dt"
  shows "date_fields t = shift_months (y, m, dt) n"
proof -
  define ym where "ym = y + (m + n) div 12"
  define mn where "mn = (m + n) mod 12"
  have mn: "0 \<le> mn" "mn \<le> 11"
    by (simp_all add: mn_def)
  have day: "Day t = MakeDay ym mn dt"
    using t mn by (simp add: MakeDay_in_year) (simp add: MakeDay_def ym_def mn_def Let_def)
  show ?thesis
  proof (cases "dt \<le> DaysInMonth ym mn")
    case True
    then show ?thesis
      using fields_of_MakeDay[OF mn dt(1) True day]
      by (simp add: date_fields_def shift_months_def ym_def mn_def Let_def)
  next
    case False
    define k where "k = dt - DaysInMonth ym mn"
    have k: "1 \<le> k" "k \<le> 28"
      using False dt DaysInMonth_range[of ym mn] by (simp_all add: k_def)
    have day': "Day t = (if mn = 11 then MakeDay (ym + 1) 0 k else MakeDay ym (mn + 1) k)"
      using MakeDay_next_month[OF mn, of ym k] day by (simp add: k_def)
    show ?thesis
    proof (cases "mn = 11")
      case True
      have "k \<le> DaysInMonth (ym + 1) 0"
        using k DaysInMonth_range[of "ym + 1" 0] by simp
      then have "YearFromTime t = ym + 1 \<and> MonthFromTime t = 0 \<and> DateFromTime t = k"
        using day' True k by (intro fields_of_MakeDay) simp_all
      then show ?thesis
        using True False
        by (simp add: date_fields_def shift_months_def ym_def[symmetric] mn_def[symmetric]
            k_def Let_def)
    next
      case F: False
      have "k \<le> DaysInMonth ym (mn + 1)"
        using k DaysInMonth_range[of ym "mn + 1"] by simp
      then have "YearFromTime t = ym \<and> MonthFromTime t = mn + 1 \<and> DateFromTime t = k"
        using day' F k mn by (intro fields_of_MakeDay) simp_all
      then show ?thesis
        using F False
        by (simp add: date_fields_def shift_months_def ym_def[symmetric] mn_def[symmetric]
            k_def Let_def)
    qed
  qed
qed

lemma TimeClip_Some: "TimeClip t = Some u \<longleftrightarrow> u = t \<and> \<bar>t\<bar> \<le> 8640000000000000"
  by (auto simp: TimeClip_def)

lemma TimeClip_None: "TimeClip t = None \<longleftrightarrow> 8640000000000000 < \<bar>t\<bar>"
  by (simp add: TimeClip_def)

text \<open>
  The local time that \<^verbatim>\<open>setMonth\<close> builds has the shifted date fields and the
  time of day of the start.
\<close>

lemma setMonth_local_time:
  fixes lt n :: int
  defines "new \<equiv> MakeDate (MakeDay (YearFromTime lt) (MonthFromTime lt + n) (DateFromTime lt))
                    (TimeWithinDay lt)"
  shows "date_fields new = shift_months (date_fields lt) n"
    and "TimeWithinDay new = TimeWithinDay lt"
proof -
  have tw: "0 \<le> TimeWithinDay lt" "TimeWithinDay lt < msPerDay"
    using TimeWithinDay_range[of lt] by simp_all
  have day: "Day new = MakeDay (YearFromTime lt) (MonthFromTime lt + n) (DateFromTime lt)"
    unfolding new_def using tw by (rule Day_MakeDate)
  have dt: "1 \<le> DateFromTime lt" "DateFromTime lt \<le> 31"
    using DateFromTime_range[of lt] DaysInMonth_range[of "YearFromTime lt" "MonthFromTime lt"]
    by simp_all
  show "date_fields new = shift_months (date_fields lt) n"
    using fields_of_shifted_day[OF dt day] by (simp add: date_fields_def)
  show "TimeWithinDay new = TimeWithinDay lt"
    unfolding new_def using tw by (rule Day_MakeDate)
qed

section \<open>Local time and the time zone of the runtime\<close>

lemma date_fields_same_day: "Day a = Day b \<Longrightarrow> date_fields a = date_fields b"
  by (simp add: date_fields_def YearFromTime_def MonthFromTime_def DateFromTime_def
      DayWithinYear_def InLeapYear_def)

text \<open>A local time is determined by its date fields and its time of day.\<close>

lemma local_time_unique:
  assumes "date_fields a = (y, m, d)" "TimeWithinDay a = w"
  shows "a = MakeDate (MakeDay y m d) w"
proof -
  have "MakeDay y m d = Day a"
    using assms(1) MakeDay_of_fields[of a] by (simp add: date_fields_def)
  then show ?thesis
    using MakeDate_Day[of a] assms(2) by simp
qed

lemma fields_of_local_time:
  assumes "0 \<le> m" "m \<le> 11" "1 \<le> d" "d \<le> DaysInMonth y m" "0 \<le> w" "w < msPerDay"
  shows "date_fields (MakeDate (MakeDay y m d) w) = (y, m, d)"
    and "TimeWithinDay (MakeDate (MakeDay y m d) w) = w"
proof -
  have day: "Day (MakeDate (MakeDay y m d) w) = MakeDay y m d"
    using assms(5,6) by (rule Day_MakeDate)
  show "date_fields (MakeDate (MakeDay y m d) w) = (y, m, d)"
    using fields_of_MakeDay[OF assms(1-4) day] by (simp add: date_fields_def)
  show "TimeWithinDay (MakeDate (MakeDay y m d) w) = w"
    using assms(5,6) by (rule Day_MakeDate)
qed

text \<open>
  A midnight UTC is, in a zone at or east of UTC, a time of the same day, and in a zone
  west of UTC a time of the day before.
\<close>

lemma midnight_east:
  assumes "TimeWithinDay t = 0" "0 \<le> k" "k < msPerDay"
  shows "Day (t + k) = Day t" and "TimeWithinDay (t + k) = k"
proof -
  have "t = MakeDate (Day t) 0"
    using MakeDate_Day[of t] assms(1) by simp
  then have "t + k = MakeDate (Day t) k"
    by (simp add: MakeDate_def)
  then show "Day (t + k) = Day t" "TimeWithinDay (t + k) = k"
    using Day_MakeDate[OF assms(2,3), of "Day t"] by simp_all
qed

lemma midnight_west:
  assumes "TimeWithinDay t = 0" "- msPerDay \<le> k" "k < 0"
  shows "Day (t + k) = Day t - 1" and "TimeWithinDay (t + k) = msPerDay + k"
proof -
  have "t = MakeDate (Day t) 0"
    using MakeDate_Day[of t] assms(1) by simp
  then have e: "t + k = MakeDate (Day t - 1) (msPerDay + k)"
    by (simp add: MakeDate_def algebra_simps)
  have r: "0 \<le> msPerDay + k" "msPerDay + k < msPerDay"
    using assms(2,3) by simp_all
  show "Day (t + k) = Day t - 1" "TimeWithinDay (t + k) = msPerDay + k"
    using Day_MakeDate[OF r, of "Day t - 1"] e by simp_all
qed

text \<open>The date-only form: midnight UTC of the written day.\<close>

lemma utc_midnight_fields:
  assumes "1 \<le> m" "m \<le> 12" "1 \<le> d" "d \<le> DaysInMonth y (m - 1)"
  shows "date_fields (utc_midnight y m d) = (y, m - 1, d)"
    and "TimeWithinDay (utc_midnight y m d) = 0"
proof -
  have m: "0 \<le> m - 1" "m - 1 \<le> 11"
    using assms(1,2) by simp_all
  have z: "(0::int) \<le> 0" "0 < msPerDay"
    using msPerDay_pos by simp_all
  show "date_fields (utc_midnight y m d) = (y, m - 1, d)"
    unfolding utc_midnight_def using m assms(3,4) z by (rule fields_of_local_time)
  show "TimeWithinDay (utc_midnight y m d) = 0"
    unfolding utc_midnight_def using m assms(3,4) z by (rule fields_of_local_time)
qed

subsection \<open>The expiry date\<close>

lemma expiry_of_invalid: "parse s = None \<Longrightarrow> expiry_of parse tza s n = None"
  by (simp add: expiry_of_def setMonth_def)

lemma expiry_of_valid:
  assumes "parse s = Some t"
  shows "expiry_of parse tza s n =
           TimeClip (UTC tza (MakeDate (MakeDay (YearFromTime (LocalTime tza t))
              (MonthFromTime (LocalTime tza t) + n) (DateFromTime (LocalTime tza t)))
              (TimeWithinDay (LocalTime tza t))))"
  using assms by (simp add: expiry_of_def setMonth_def getMonth_def Let_def)

text \<open>
  The expiry date is the one local time with the shifted date fields and the time of day
  of the start, converted from local time and clipped.
\<close>

lemma expiry_of_shifted:
  assumes p: "parse s = Some t"
    and f: "date_fields new = shift_months (date_fields (LocalTime tza t)) n"
    and w: "TimeWithinDay new = TimeWithinDay (LocalTime tza t)"
  shows "expiry_of parse tza s n = TimeClip (UTC tza new)"
proof -
  define lt where "lt = LocalTime tza t"
  define new' where
    "new' = MakeDate (MakeDay (YearFromTime lt) (MonthFromTime lt + n) (DateFromTime lt))
              (TimeWithinDay lt)"
  have f': "date_fields new' = shift_months (date_fields lt) n"
    and w': "TimeWithinDay new' = TimeWithinDay lt"
    unfolding new'_def by (rule setMonth_local_time)+
  have "date_fields new = date_fields new'"
    unfolding f f' lt_def by (rule refl)
  moreover have "TimeWithinDay new = TimeWithinDay new'"
    unfolding w w' lt_def by (rule refl)
  ultimately have n: "new = new'"
    by (rule time_value_unique)
  have "expiry_of parse tza s n = TimeClip (UTC tza new')"
    unfolding new'_def lt_def using p by (rule expiry_of_valid[where parse = parse])
  then show ?thesis
    unfolding n .
qed

lemma shifted_local_time_exists:
  "\<exists>new. date_fields new = shift_months (date_fields lt) n \<and> TimeWithinDay new = TimeWithinDay lt"
  using setMonth_local_time[of lt n] by blast

lemma sd_expiryDate_calc:
  "sd_expiryDate (calculateSubscriptionDetails parse tza now c) =
     expiry_of parse tza (startDate c) (monthsPaid c)"
  by (simp add: calculateSubscriptionDetails_def Let_def)

subsection \<open>Local midnights\<close>

text \<open>\<^verbatim>\<open>setHours(0, 0, 0, 0)\<close> gives the midnight that starts the local day.\<close>

lemma setHours0_local_midnight:
  assumes "Day ml = Day (LocalTime tza now)" "TimeWithinDay ml = 0"
  shows "setHours0 tza (Some now) = TimeClip (UTC tza ml)"
proof -
  have "ml = MakeDate (Day (LocalTime tza now)) 0"
    using MakeDate_Day[of ml] assms by simp
  then show ?thesis
    by (simp add: setHours0_def MakeTime_def)
qed

lemma local_midnight_exists: "\<exists>ml. Day ml = d \<and> TimeWithinDay ml = 0"
proof -
  have "Day (MakeDate d 0) = d \<and> TimeWithinDay (MakeDate d 0) = 0"
    using Day_MakeDate[of 0 d] msPerDay_pos by simp
  then show ?thesis
    by blast
qed

text \<open>
  \<^verbatim>\<open>new Date(year, month, 1)\<close> and \<^verbatim>\<open>new Date(year, month + 1, 0)\<close> are the local
  midnights that start the first and the last day of the month.
\<close>

lemma Date_of_fields_first:
  assumes "date_fields la = (full_year y, m, 1)" "TimeWithinDay la = 0"
  shows "Date_of_fields tza y m 1 = TimeClip (UTC tza la)"
  using local_time_unique[OF assms] by (simp add: Date_of_fields_def full_year_def)

lemma MakeDay_day_zero:
  assumes "0 \<le> m" "m \<le> 11"
  shows "MakeDay y (m + 1) 0 = MakeDay y m (DaysInMonth y m)"
proof (cases "m = 11")
  case True
  have "MakeDay y 12 0 = MakeDay (y + 1) 0 0"
    by (simp add: MakeDay_def)
  then show ?thesis
    using MakeDay_next_month[OF assms, of y 0] True by simp
next
  case False
  then show ?thesis
    using MakeDay_next_month[OF assms, of y 0] by simp
qed

lemma Date_of_fields_last:
  assumes m: "0 \<le> m" "m \<le> 11"
    and "date_fields lb = (full_year y, m, DaysInMonth (full_year y) m)" "TimeWithinDay lb = 0"
  shows "Date_of_fields tza y (m + 1) 0 = TimeClip (UTC tza lb)"
  using local_time_unique[OF assms(3,4)] MakeDay_day_zero[OF m, of "full_year y"]
  by (simp add: Date_of_fields_def full_year_def)

lemma month_midnights_exist:
  assumes "0 \<le> m" "m \<le> 11"
  shows "\<exists>la lb. date_fields la = (y, m, 1) \<and> TimeWithinDay la = 0 \<and>
           date_fields lb = (y, m, DaysInMonth y m) \<and> TimeWithinDay lb = 0"
proof -
  have z: "(0::int) \<le> 0" "0 < msPerDay"
    using msPerDay_pos by simp_all
  have d: "1 \<le> DaysInMonth y m" "(1::int) \<le> 1"
    using DaysInMonth_range[of y m] by simp_all
  have "date_fields (MakeDate (MakeDay y m 1) 0) = (y, m, 1)"
    "TimeWithinDay (MakeDate (MakeDay y m 1) 0) = 0"
    using assms d(2,1) z by (rule fields_of_local_time)+
  moreover have "date_fields (MakeDate (MakeDay y m (DaysInMonth y m)) 0) = (y, m, DaysInMonth y m)"
    "TimeWithinDay (MakeDate (MakeDay y m (DaysInMonth y m)) 0) = 0"
    using assms d(1) order_refl z by (rule fields_of_local_time)+
  ultimately show ?thesis
    by blast
qed

section \<open>Properties of the status calculator\<close>

text \<open>
  \<open>ceil_days x\<close> is the ceiling of \<open>x / msPerDay\<close>: the one integer \<open>n\<close> with
  \<open>(n - 1) * msPerDay < x \<le> n * msPerDay\<close>.
\<close>

lemma ceil_days_bounds:
  "(ceil_days x - 1) * msPerDay < x \<and> x \<le> ceil_days x * msPerDay"
proof -
  define q where "q = (- x) div msPerDay"
  have n: "ceil_days x = - q"
    by (simp add: ceil_days_def q_def msPerDay_def)
  have "- x - (msPerDay - 1) \<le> msPerDay * q" "msPerDay * q \<le> - x"
    unfolding q_def using msPerDay_pos by (rule div_bounds)+
  then show ?thesis
    unfolding n by (simp add: algebra_simps)
qed

lemma ceil_days_nonpos: "ceil_days x \<le> 0 \<longleftrightarrow> x \<le> 0"
proof
  assume "ceil_days x \<le> 0"
  then have "ceil_days x * msPerDay \<le> 0 * msPerDay"
    using msPerDay_pos by (intro mult_right_mono) simp_all
  then show "x \<le> 0"
    using ceil_days_bounds[of x] by simp
next
  assume x: "x \<le> 0"
  show "ceil_days x \<le> 0"
  proof (rule ccontr)
    assume "\<not> ceil_days x \<le> 0"
    then have "0 \<le> ceil_days x - 1"
      by simp
    then have "0 * msPerDay \<le> (ceil_days x - 1) * msPerDay"
      using msPerDay_pos by (intro mult_right_mono) simp_all
    then show False
      using ceil_days_bounds[of x] x by simp
  qed
qed

lemma ceil_days_week: "ceil_days x \<le> 7 \<longleftrightarrow> x \<le> 7 * msPerDay"
proof
  assume "ceil_days x \<le> 7"
  then have "ceil_days x * msPerDay \<le> 7 * msPerDay"
    using msPerDay_pos by (intro mult_right_mono) simp_all
  then show "x \<le> 7 * msPerDay"
    using ceil_days_bounds[of x] by simp
next
  assume x: "x \<le> 7 * msPerDay"
  show "ceil_days x \<le> 7"
  proof (rule ccontr)
    assume "\<not> ceil_days x \<le> 7"
    then have "7 \<le> ceil_days x - 1"
      by simp
    then have "7 * msPerDay \<le> (ceil_days x - 1) * msPerDay"
      using msPerDay_pos by (intro mult_right_mono) simp_all
    then show False
      using ceil_days_bounds[of x] x by simp
  qed
qed

text \<open>
  The result when the expiry date and today's local midnight are both valid, and when one
  of them is not.
\<close>

lemma details_valid:
  assumes e: "expiry_of parse tza (startDate c) (monthsPaid c) = Some e"
    and t: "setHours0 tza (Some now) = Some t0"
  shows "calculateSubscriptionDetails parse tza now c =
           \<lparr> sd_expiryDate = Some e, sd_daysLeft = Some (ceil_days (e - t0)),
             sd_status = (if ceil_days (e - t0) \<le> 0 then Expired
                          else if ceil_days (e - t0) \<le> 7 then ExpiringSoon else Active) \<rparr>"
  unfolding calculateSubscriptionDetails_def e t by (simp add: Let_def)

lemma details_invalid:
  assumes "expiry_of parse tza (startDate c) (monthsPaid c) = None \<or>
           setHours0 tza (Some now) = None"
  shows "sd_daysLeft (calculateSubscriptionDetails parse tza now c) = None"
    and "sd_status (calculateSubscriptionDetails parse tza now c) = Active"
  using assms
  by (auto simp: calculateSubscriptionDetails_def Let_def split: option.splits)

lemma setHours0_same_day:
  assumes "Day (LocalTime tza now') = Day (LocalTime tza now)"
  shows "setHours0 tza (Some now') = setHours0 tza (Some now)"
  using assms by (simp add: setHours0_def)

lemma details_same_day:
  assumes "startDate c' = startDate c" "monthsPaid c' = monthsPaid c"
    and "Day (LocalTime tza now') = Day (LocalTime tza now)"
  shows "calculateSubscriptionDetails parse tza now' c' =
           calculateSubscriptionDetails parse tza now c"
  unfolding calculateSubscriptionDetails_def assms(1,2) setHours0_same_day[OF assms(3)]
  by (rule refl)

text \<open>
  With a valid expiry date \<open>e\<close> and today's local midnight at the time value \<open>t0\<close>:
  \<^verbatim>\<open>daysLeft\<close> is the ceiling of \<open>(e - t0) / msPerDay\<close>, and the status follows from
  the distance of the two instants.
\<close>

lemma details_of_instants:
  assumes e: "sd_expiryDate (calculateSubscriptionDetails parse tza now c) = Some e"
    and ml: "Day ml = Day (LocalTime tza now)" "TimeWithinDay ml = 0"
    and r: "\<bar>UTC tza ml\<bar> \<le> 8640000000000000"
  shows "\<exists>n. sd_daysLeft (calculateSubscriptionDetails parse tza now c) = Some n \<and>
           (n - 1) * msPerDay < e - UTC tza ml \<and> e - UTC tza ml \<le> n * msPerDay"
    and "sd_status (calculateSubscriptionDetails parse tza now c) = Expired
           \<longleftrightarrow> e \<le> UTC tza ml"
    and "sd_status (calculateSubscriptionDetails parse tza now c) = ExpiringSoon
           \<longleftrightarrow> UTC tza ml < e \<and> e \<le> UTC tza ml + 7 * msPerDay"
    and "sd_status (calculateSubscriptionDetails parse tza now c) = Active
           \<longleftrightarrow> UTC tza ml + 7 * msPerDay < e"
proof -
  define t0 where "t0 = UTC tza ml"
  define x where "x = e - t0"
  have e': "expiry_of parse tza (startDate c) (monthsPaid c) = Some e"
    using e by (simp only: sd_expiryDate_calc)
  have "setHours0 tza (Some now) = TimeClip t0"
    unfolding t0_def using ml by (rule setHours0_local_midnight)
  then have t: "setHours0 tza (Some now) = Some t0"
    using r by (simp add: TimeClip_def t0_def)
  note v = details_valid[where parse = parse, OF e' t, folded x_def]
  have b: "(ceil_days x - 1) * msPerDay < x \<and> x \<le> ceil_days x * msPerDay"
    by (rule ceil_days_bounds)
  have z: "ceil_days x \<le> 0 \<longleftrightarrow> e \<le> t0"
    using ceil_days_nonpos[of x] by (auto simp: x_def)
  have w: "ceil_days x \<le> 7 \<longleftrightarrow> e \<le> t0 + 7 * msPerDay"
    using ceil_days_week[of x] by (auto simp: x_def)
  have o: "t0 \<le> t0 + 7 * msPerDay"
    using msPerDay_pos by simp
  show "\<exists>n. sd_daysLeft (calculateSubscriptionDetails parse tza now c) = Some n \<and>
           (n - 1) * msPerDay < e - UTC tza ml \<and> e - UTC tza ml \<le> n * msPerDay"
    unfolding v t0_def[symmetric] x_def[symmetric] using b by simp
  show "sd_status (calculateSubscriptionDetails parse tza now c) = Expired
           \<longleftrightarrow> e \<le> UTC tza ml"
    unfolding v t0_def[symmetric] using z w o by auto
  show "sd_status (calculateSubscriptionDetails parse tza now c) = ExpiringSoon
           \<longleftrightarrow> UTC tza ml < e \<and> e \<le> UTC tza ml + 7 * msPerDay"
    unfolding v t0_def[symmetric] using z w o by auto
  show "sd_status (calculateSubscriptionDetails parse tza now c) = Active
           \<longleftrightarrow> UTC tza ml + 7 * msPerDay < e"
    unfolding v t0_def[symmetric] using z w o by auto
qed

lemma details_of_invalid_today:
  assumes ml: "Day ml = Day (LocalTime tza now)" "TimeWithinDay ml = 0"
    and r: "8640000000000000 < \<bar>UTC tza ml\<bar>"
  shows "sd_daysLeft (calculateSubscriptionDetails parse tza now c) = None"
    and "sd_status (calculateSubscriptionDetails parse tza now c) = Active"
proof -
  have "setHours0 tza (Some now) = TimeClip (UTC tza ml)"
    using ml by (rule setHours0_local_midnight)
  then have t: "setHours0 tza (Some now) = None"
    using r by (simp add: TimeClip_def)
  show "sd_daysLeft (calculateSubscriptionDetails parse tza now c) = None"
    using t by (intro details_invalid) simp
  show "sd_status (calculateSubscriptionDetails parse tza now c) = Active"
    using t by (intro details_invalid) simp
qed

lemma status_of_daysLeft:
  assumes "sd_daysLeft (calculateSubscriptionDetails parse tza now c) = Some n"
  shows "sd_status (calculateSubscriptionDetails parse tza now c) =
           (if n \<le> 0 then Expired else if n \<le> 7 then ExpiringSoon else Active)"
  using assms by (auto simp: calculateSubscriptionDetails_def Let_def)

text \<open>
  C1. The result of the status calculator for a customer at the clock reading \<open>now\<close>, in
  the time zone \<open>tza\<close> and with the date parser \<open>parse\<close> of the runtime.

  \<^item> Whenever \<^verbatim>\<open>daysLeft\<close> is a number: at most 0 gives Expired, 1 to 7 gives
    ExpiringSoon, more than 7 gives Active.
  \<^item> \<^verbatim>\<open>daysLeft\<close> is the ceiling of the distance in days from today's local midnight
    to the expiry date: with the expiry date at the time value \<open>e\<close> and \<open>ml\<close> the local
    time at midnight of the local day of \<open>now\<close>, whose time value is \<open>UTC tza ml\<close>,
    \<^verbatim>\<open>daysLeft\<close> is the integer \<open>n\<close> with
    \<open>(n - 1) * msPerDay < e - UTC tza ml \<le> n * msPerDay\<close>. So the status is Expired
    exactly when the expiry date is not after today's local midnight, ExpiringSoon exactly
    when it is after it by at most seven days, and Active exactly when it is after it by
    more than seven days.
  \<^item> With an invalid expiry date, or with today's local midnight outside the range of time
    values, \<^verbatim>\<open>daysLeft\<close> is NaN and the status is Active.
  \<^item> The expiry date is invalid when the start date does not parse, and is otherwise the
    local time of the start shifted by \<^verbatim>\<open>monthsPaid\<close> months, converted from local time.
  \<^item> The whole result is a function of \<^verbatim>\<open>startDate\<close>, \<^verbatim>\<open>monthsPaid\<close> and today, the
    local day of the clock reading: no other field of the customer and nothing else of the
    clock reading enters.
\<close>

theorem status_thresholds:
  "(\<forall>n. sd_daysLeft (calculateSubscriptionDetails parse tza now c) = Some n \<longrightarrow>
      (n \<le> 0 \<longrightarrow> sd_status (calculateSubscriptionDetails parse tza now c) = Expired) \<and>
      (1 \<le> n \<and> n \<le> 7 \<longrightarrow>
         sd_status (calculateSubscriptionDetails parse tza now c) = ExpiringSoon) \<and>
      (7 < n \<longrightarrow> sd_status (calculateSubscriptionDetails parse tza now c) = Active)) \<and>
   (\<forall>e ml. sd_expiryDate (calculateSubscriptionDetails parse tza now c) = Some e \<and>
      Day ml = Day (LocalTime tza now) \<and> TimeWithinDay ml = 0 \<and>
      \<bar>UTC tza ml\<bar> \<le> 8640000000000000 \<longrightarrow>
      (\<exists>n. sd_daysLeft (calculateSubscriptionDetails parse tza now c) = Some n \<and>
         (n - 1) * msPerDay < e - UTC tza ml \<and> e - UTC tza ml \<le> n * msPerDay) \<and>
      (sd_status (calculateSubscriptionDetails parse tza now c) = Expired
         \<longleftrightarrow> e \<le> UTC tza ml) \<and>
      (sd_status (calculateSubscriptionDetails parse tza now c) = ExpiringSoon
         \<longleftrightarrow> UTC tza ml < e \<and> e \<le> UTC tza ml + 7 * msPerDay) \<and>
      (sd_status (calculateSubscriptionDetails parse tza now c) = Active
         \<longleftrightarrow> UTC tza ml + 7 * msPerDay < e)) \<and>
   (sd_expiryDate (calculateSubscriptionDetails parse tza now c) = None \<longrightarrow>
      sd_daysLeft (calculateSubscriptionDetails parse tza now c) = None \<and>
      sd_status (calculateSubscriptionDetails parse tza now c) = Active) \<and>
   (\<forall>ml. Day ml = Day (LocalTime tza now) \<and> TimeWithinDay ml = 0 \<and>
      8640000000000000 < \<bar>UTC tza ml\<bar> \<longrightarrow>
      sd_daysLeft (calculateSubscriptionDetails parse tza now c) = None \<and>
      sd_status (calculateSubscriptionDetails parse tza now c) = Active) \<and>
   (parse (startDate c) = None \<longrightarrow>
      sd_expiryDate (calculateSubscriptionDetails parse tza now c) = None) \<and>
   (\<forall>t new. parse (startDate c) = Some t \<and>
      date_fields new = shift_months (date_fields (LocalTime tza t)) (monthsPaid c) \<and>
      TimeWithinDay new = TimeWithinDay (LocalTime tza t) \<longrightarrow>
      sd_expiryDate (calculateSubscriptionDetails parse tza now c) = TimeClip (UTC tza new)) \<and>
   (\<forall>c' now'. startDate c' = startDate c \<and> monthsPaid c' = monthsPaid c \<and>
      Day (LocalTime tza now') = Day (LocalTime tza now) \<longrightarrow>
      calculateSubscriptionDetails parse tza now' c' =
      calculateSubscriptionDetails parse tza now c)"
  (is "?thresholds \<and> ?ceiling \<and> ?no_expiry \<and> ?no_today \<and> ?unparsed \<and> ?shifted \<and> ?pure")
proof (intro conjI)
  show ?thresholds
    by (auto simp: status_of_daysLeft[where parse = parse])
next
  show ?ceiling
  proof (intro allI impI)
    fix e ml
    assume a: "sd_expiryDate (calculateSubscriptionDetails parse tza now c) = Some e \<and>
      Day ml = Day (LocalTime tza now) \<and> TimeWithinDay ml = 0 \<and>
      \<bar>UTC tza ml\<bar> \<le> 8640000000000000"
    then have e: "sd_expiryDate (calculateSubscriptionDetails parse tza now c) = Some e"
      and ml: "Day ml = Day (LocalTime tza now)" "TimeWithinDay ml = 0"
      and r: "\<bar>UTC tza ml\<bar> \<le> 8640000000000000"
      by blast+
    show "(\<exists>n. sd_daysLeft (calculateSubscriptionDetails parse tza now c) = Some n \<and>
         (n - 1) * msPerDay < e - UTC tza ml \<and> e - UTC tza ml \<le> n * msPerDay) \<and>
      (sd_status (calculateSubscriptionDetails parse tza now c) = Expired
         \<longleftrightarrow> e \<le> UTC tza ml) \<and>
      (sd_status (calculateSubscriptionDetails parse tza now c) = ExpiringSoon
         \<longleftrightarrow> UTC tza ml < e \<and> e \<le> UTC tza ml + 7 * msPerDay) \<and>
      (sd_status (calculateSubscriptionDetails parse tza now c) = Active
         \<longleftrightarrow> UTC tza ml + 7 * msPerDay < e)"
      by (intro conjI details_of_instants[where parse = parse, OF e ml r])
  qed
next
  show ?no_expiry
  proof
    assume "sd_expiryDate (calculateSubscriptionDetails parse tza now c) = None"
    then have "expiry_of parse tza (startDate c) (monthsPaid c) = None"
      by (simp only: sd_expiryDate_calc)
    then show "sd_daysLeft (calculateSubscriptionDetails parse tza now c) = None \<and>
      sd_status (calculateSubscriptionDetails parse tza now c) = Active"
      by (intro conjI details_invalid[where parse = parse]) simp_all
  qed
next
  show ?no_today
    using details_of_invalid_today[where parse = parse and tza = tza and now = now and c = c]
    by blast
next
  show ?unparsed
    by (simp add: sd_expiryDate_calc expiry_of_invalid[where parse = parse])
next
  show ?shifted
    unfolding sd_expiryDate_calc
    using expiry_of_shifted[where parse = parse and tza = tza and s = "startDate c"]
    by blast
next
  show ?pure
    using details_same_day[where parse = parse and tza = tza and c = c and now = now]
    by blast
qed

theorem status_thresholds_witness:
  "sd_expiryDate (calculateSubscriptionDetails parse_date_only new_york_2024 example_now
      example_customer) = Some 1710457200000 \<and>
   sd_daysLeft (calculateSubscriptionDetails parse_date_only new_york_2024 example_now
      example_customer) = Some 5 \<and>
   sd_status (calculateSubscriptionDetails parse_date_only new_york_2024 example_now
      example_customer) = ExpiringSoon"
proof -
  let ?r = "calculateSubscriptionDetails parse_date_only new_york_2024 example_now example_customer"
  have e: "sd_expiryDate ?r = Some 1710457200000"
    by code_simp
  have ml: "Day 1710028800000 = Day (LocalTime new_york_2024 example_now)"
    "TimeWithinDay 1710028800000 = 0"
    by code_simp+
  have u: "UTC new_york_2024 1710028800000 = 1710046800000"
    by code_simp
  have r: "\<bar>UTC new_york_2024 1710028800000\<bar> \<le> 8640000000000000"
    unfolding u by simp
  from status_thresholds [where parse = parse_date_only and tza = new_york_2024
      and now = example_now and c = example_customer]
  have "\<forall>e ml. sd_expiryDate ?r = Some e \<and>
      Day ml = Day (LocalTime new_york_2024 example_now) \<and> TimeWithinDay ml = 0 \<and>
      \<bar>UTC new_york_2024 ml\<bar> \<le> 8640000000000000 \<longrightarrow>
      (\<exists>n. sd_daysLeft ?r = Some n \<and>
         (n - 1) * msPerDay < e - UTC new_york_2024 ml \<and>
         e - UTC new_york_2024 ml \<le> n * msPerDay) \<and>
      (sd_status ?r = Expired \<longleftrightarrow> e \<le> UTC new_york_2024 ml) \<and>
      (sd_status ?r = ExpiringSoon
         \<longleftrightarrow> UTC new_york_2024 ml < e \<and> e \<le> UTC new_york_2024 ml + 7 * msPerDay) \<and>
      (sd_status ?r = Active \<longleftrightarrow> UTC new_york_2024 ml + 7 * msPerDay < e)"
    by (elim conjE)
  with e ml r
  have "(\<exists>n. sd_daysLeft ?r = Some n \<and>
         (n - 1) * msPerDay < 1710457200000 - UTC new_york_2024 1710028800000 \<and>
         1710457200000 - UTC new_york_2024 1710028800000 \<le> n * msPerDay) \<and>
      (sd_status ?r = ExpiringSoon
         \<longleftrightarrow> UTC new_york_2024 1710028800000 < 1710457200000 \<and>
            1710457200000 \<le> UTC new_york_2024 1710028800000 + 7 * msPerDay)"
    by blast
  then obtain n where n: "sd_daysLeft ?r = Some n"
    and b: "(n - 1) * msPerDay < 410400000" "410400000 \<le> n * msPerDay"
    and s: "sd_status ?r = ExpiringSoon"
    unfolding u by (auto simp: msPerDay_def)
  have "n = 5"
    using b by (simp add: msPerDay_def)
  then show ?thesis
    using e n s by simp
qed

section \<open>The expiry date\<close>

lemma written_date_range:
  assumes "written_date s = Some (y, m, d)"
  shows "1 \<le> m \<and> m \<le> 12 \<and> 1 \<le> d \<and> d \<le> 31"
  using assms by (auto simp: written_date_def split: if_splits option.splits)

text \<open>
  A start at a midnight UTC, in a zone at or east of UTC that has at the local time of the
  expiry the offset it has at the start: the expiry date is midnight UTC of the shifted
  date.
\<close>

lemma expiry_east:
  assumes m: "TimeWithinDay t = 0"
    and k: "0 \<le> tza t True" "tza t True < msPerDay"
    and f: "date_fields new = shift_months (date_fields (LocalTime tza t)) n"
    and w: "TimeWithinDay new = TimeWithinDay (LocalTime tza t)"
    and s: "tza new False = tza t True"
  shows "date_fields (UTC tza new) = shift_months (date_fields t) n"
    and "TimeWithinDay (UTC tza new) = 0"
proof -
  define k where "k = tza t True"
  have lt: "Day (t + k) = Day t" "TimeWithinDay (t + k) = k"
    using m k unfolding k_def by (rule midnight_east)+
  have tw: "TimeWithinDay new = k"
    using w lt(2) by (simp add: LocalTime_def k_def)
  have "new = MakeDate (Day new) k"
    using MakeDate_Day[of new] tw by simp
  then have u: "UTC tza new = MakeDate (Day new) 0"
    unfolding UTC_def s k_def[symmetric] by (simp add: MakeDate_def)
  have z: "(0::int) \<le> 0" "0 < msPerDay"
    using msPerDay_pos by simp_all
  have "Day (UTC tza new) = Day new"
    unfolding u using z by (rule Day_MakeDate)
  then have "date_fields (UTC tza new) = date_fields new"
    by (rule date_fields_same_day)
  moreover have "date_fields (LocalTime tza t) = date_fields t"
    using lt(1) unfolding LocalTime_def k_def by (rule date_fields_same_day)
  ultimately show "date_fields (UTC tza new) = shift_months (date_fields t) n"
    using f by simp
  show "TimeWithinDay (UTC tza new) = 0"
    unfolding u using z by (rule Day_MakeDate)
qed

text \<open>
  West of UTC, the local day of the start is the day before, and the expiry date is the
  midnight UTC that ends the local day of the shifted date.
\<close>

lemma expiry_west:
  assumes m: "TimeWithinDay t = 0"
    and k: "- msPerDay \<le> tza t True" "tza t True < 0"
    and w: "TimeWithinDay new = TimeWithinDay (LocalTime tza t)"
    and s: "tza new False = tza t True"
  shows "Day (UTC tza new) = Day new + 1" and "TimeWithinDay (UTC tza new) = 0"
proof -
  define k where "k = tza t True"
  have "TimeWithinDay (t + k) = msPerDay + k"
    using m k unfolding k_def by (rule midnight_west)
  then have tw: "TimeWithinDay new = msPerDay + k"
    using w by (simp add: LocalTime_def k_def)
  have "new = MakeDate (Day new) (msPerDay + k)"
    using MakeDate_Day[of new] tw by simp
  then have u: "UTC tza new = MakeDate (Day new + 1) 0"
    unfolding UTC_def s k_def[symmetric] by (simp add: MakeDate_def algebra_simps)
  have z: "(0::int) \<le> 0" "0 < msPerDay"
    using msPerDay_pos by simp_all
  show "Day (UTC tza new) = Day new + 1"
    unfolding u using z by (rule Day_MakeDate)
  show "TimeWithinDay (UTC tza new) = 0"
    unfolding u using z by (rule Day_MakeDate)
qed

lemma written_start:
  assumes wd: "written_date s = Some (y, m, d)" and d: "d \<le> DaysInMonth y (m - 1)"
    and t: "t = utc_midnight y m d"
    and f: "date_fields new = shift_months (date_fields (LocalTime tza t)) n"
    and w: "TimeWithinDay new = TimeWithinDay (LocalTime tza t)"
  shows "date_fields t = (y, m - 1, d) \<and> TimeWithinDay t = 0 \<and>
      (0 \<le> tza t True \<and> tza t True < msPerDay \<longrightarrow>
         date_fields (LocalTime tza t) = (y, m - 1, d) \<and>
         (tza new False = tza t True \<longrightarrow>
            date_fields (UTC tza new) = shift_months (y, m - 1, d) n \<and>
            TimeWithinDay (UTC tza new) = 0)) \<and>
      (- msPerDay \<le> tza t True \<and> tza t True < 0 \<longrightarrow>
         Day (LocalTime tza t) = Day t - 1 \<and>
         (tza new False = tza t True \<longrightarrow>
            Day (UTC tza new) = Day new + 1 \<and> TimeWithinDay (UTC tza new) = 0))"
proof -
  have r: "1 \<le> m" "m \<le> 12" "1 \<le> d"
    using written_date_range[OF wd] by simp_all
  have tf: "date_fields t = (y, m - 1, d)" and tm: "TimeWithinDay t = 0"
    unfolding t using r d by (rule utc_midnight_fields)+
  have east: "date_fields (LocalTime tza t) = (y, m - 1, d) \<and>
         (tza new False = tza t True \<longrightarrow>
            date_fields (UTC tza new) = shift_months (y, m - 1, d) n \<and>
            TimeWithinDay (UTC tza new) = 0)"
    if k: "0 \<le> tza t True \<and> tza t True < msPerDay"
  proof -
    have k': "0 \<le> tza t True" "tza t True < msPerDay"
      using k by simp_all
    have "Day (t + tza t True) = Day t"
      using tm k' by (rule midnight_east)
    then have "date_fields (LocalTime tza t) = date_fields t"
      unfolding LocalTime_def by (rule date_fields_same_day)
    then have l: "date_fields (LocalTime tza t) = (y, m - 1, d)"
      using tf by simp
    have "date_fields (UTC tza new) = shift_months (y, m - 1, d) n \<and>
            TimeWithinDay (UTC tza new) = 0"
      if s: "tza new False = tza t True"
      using expiry_east[OF tm k' f w s] tf by simp
    then show ?thesis
      using l by blast
  qed
  have west: "Day (LocalTime tza t) = Day t - 1 \<and>
         (tza new False = tza t True \<longrightarrow>
            Day (UTC tza new) = Day new + 1 \<and> TimeWithinDay (UTC tza new) = 0)"
    if k: "- msPerDay \<le> tza t True \<and> tza t True < 0"
  proof -
    have k': "- msPerDay \<le> tza t True" "tza t True < 0"
      using k by simp_all
    have l: "Day (LocalTime tza t) = Day t - 1"
      unfolding LocalTime_def using tm k' by (rule midnight_west)
    have "Day (UTC tza new) = Day new + 1 \<and> TimeWithinDay (UTC tza new) = 0"
      if s: "tza new False = tza t True"
      using expiry_west[OF tm k' w s] by simp
    then show ?thesis
      using l by blast
  qed
  show ?thesis
    using tf tm east west by blast
qed

text \<open>
  With daylight saving time, the offset at the expiry may differ from that at the start.
  In New York, two months from 2024-01-15 start at 7 p.m. of 14 January, five hours behind
  UTC, and end at 7 p.m. of 14 March, four hours behind UTC.
\<close>

lemma expiry_new_york_example:
  "expiry_of parse_date_only new_york_2024 ''2024-01-15'' 2 = Some 1710457200000 \<and>
   date_fields (LocalTime new_york_2024 1705276800000) = (2024, 0, 14) \<and>
   date_fields (LocalTime new_york_2024 1710457200000) = (2024, 2, 14) \<and>
   TimeWithinDay (LocalTime new_york_2024 1705276800000) = 68400000 \<and>
   TimeWithinDay (LocalTime new_york_2024 1710457200000) = 68400000"
  by code_simp

text \<open>
  C2, as the code has it. The start is the time value that the runtime parses from
  \<^verbatim>\<open>startDate\<close>; an unparsable start date gives an invalid expiry date. Otherwise the
  expiry date is the local date and time of the start, in the time zone of the runtime,
  shifted forward by \<^verbatim>\<open>monthsPaid\<close> calendar months, a day beyond the end of the target
  month running over into the next month and the time of day kept, converted back from
  local time; it is invalid only when that is outside the range of time values.

  For a start date written YYYY-MM-DD and read as midnight UTC of that day, the local date
  of the start is the written date in a zone at or east of UTC, and the expiry date is
  then midnight UTC of the written date shifted by the months, provided the zone has the
  same offset at both ends. West of UTC the local date of the start is the day before the
  written date, and it is that day which is shifted.

  The expiry date is computed from \<^verbatim>\<open>startDate\<close> and \<^verbatim>\<open>monthsPaid\<close> alone.
\<close>

theorem expiry_is_start_shifted_by_months:
  "(parse (startDate c) = None \<longrightarrow>
      sd_expiryDate (calculateSubscriptionDetails parse tza now c) = None) \<and>
   (\<forall>t. parse (startDate c) = Some t \<longrightarrow>
      (\<exists>new. date_fields new = shift_months (date_fields (LocalTime tza t)) (monthsPaid c) \<and>
         TimeWithinDay new = TimeWithinDay (LocalTime tza t) \<and>
         sd_expiryDate (calculateSubscriptionDetails parse tza now c) =
           TimeClip (UTC tza new))) \<and>
   (\<forall>y m d t new. written_date (startDate c) = Some (y, m, d) \<and> d \<le> DaysInMonth y (m - 1) \<and>
      t = utc_midnight y m d \<and> parse (startDate c) = Some t \<and>
      date_fields new = shift_months (date_fields (LocalTime tza t)) (monthsPaid c) \<and>
      TimeWithinDay new = TimeWithinDay (LocalTime tza t) \<longrightarrow>
      date_fields t = (y, m - 1, d) \<and> TimeWithinDay t = 0 \<and>
      (0 \<le> tza t True \<and> tza t True < msPerDay \<longrightarrow>
         date_fields (LocalTime tza t) = (y, m - 1, d) \<and>
         (tza new False = tza t True \<longrightarrow>
            date_fields (UTC tza new) = shift_months (y, m - 1, d) (monthsPaid c) \<and>
            TimeWithinDay (UTC tza new) = 0)) \<and>
      (- msPerDay \<le> tza t True \<and> tza t True < 0 \<longrightarrow>
         Day (LocalTime tza t) = Day t - 1 \<and>
         (tza new False = tza t True \<longrightarrow>
            Day (UTC tza new) = Day new + 1 \<and> TimeWithinDay (UTC tza new) = 0))) \<and>
   (\<forall>c' now'. startDate c' = startDate c \<and> monthsPaid c' = monthsPaid c \<longrightarrow>
      sd_expiryDate (calculateSubscriptionDetails parse tza now' c') =
      sd_expiryDate (calculateSubscriptionDetails parse tza now c))"
  (is "?unparsed \<and> ?shifted \<and> ?written \<and> ?recomputed")
proof (intro conjI)
  show ?unparsed
    by (simp add: sd_expiryDate_calc expiry_of_invalid[where parse = parse])
next
  show ?shifted
  proof (intro allI impI)
    fix t
    assume p: "parse (startDate c) = Some t"
    obtain new where f: "date_fields new =
        shift_months (date_fields (LocalTime tza t)) (monthsPaid c)"
      and w: "TimeWithinDay new = TimeWithinDay (LocalTime tza t)"
      using shifted_local_time_exists[of "LocalTime tza t" "monthsPaid c"] by blast
    have "sd_expiryDate (calculateSubscriptionDetails parse tza now c) = TimeClip (UTC tza new)"
      unfolding sd_expiryDate_calc using p f w by (rule expiry_of_shifted[where parse = parse])
    then show "\<exists>new. date_fields new =
          shift_months (date_fields (LocalTime tza t)) (monthsPaid c) \<and>
         TimeWithinDay new = TimeWithinDay (LocalTime tza t) \<and>
         sd_expiryDate (calculateSubscriptionDetails parse tza now c) = TimeClip (UTC tza new)"
      using f w by blast
  qed
next
  show ?written
  proof (intro allI impI)
    fix y m d t new
    assume a: "written_date (startDate c) = Some (y, m, d) \<and> d \<le> DaysInMonth y (m - 1) \<and>
      t = utc_midnight y m d \<and> parse (startDate c) = Some t \<and>
      date_fields new = shift_months (date_fields (LocalTime tza t)) (monthsPaid c) \<and>
      TimeWithinDay new = TimeWithinDay (LocalTime tza t)"
    then have wd: "written_date (startDate c) = Some (y, m, d)"
      and d: "d \<le> DaysInMonth y (m - 1)" and t: "t = utc_midnight y m d"
      and f: "date_fields new = shift_months (date_fields (LocalTime tza t)) (monthsPaid c)"
      and w: "TimeWithinDay new = TimeWithinDay (LocalTime tza t)"
      by blast+
    show "date_fields t = (y, m - 1, d) \<and> TimeWithinDay t = 0 \<and>
      (0 \<le> tza t True \<and> tza t True < msPerDay \<longrightarrow>
         date_fields (LocalTime tza t) = (y, m - 1, d) \<and>
         (tza new False = tza t True \<longrightarrow>
            date_fields (UTC tza new) = shift_months (y, m - 1, d) (monthsPaid c) \<and>
            TimeWithinDay (UTC tza new) = 0)) \<and>
      (- msPerDay \<le> tza t True \<and> tza t True < 0 \<longrightarrow>
         Day (LocalTime tza t) = Day t - 1 \<and>
         (tza new False = tza t True \<longrightarrow>
            Day (UTC tza new) = Day new + 1 \<and> TimeWithinDay (UTC tza new) = 0))"
      using wd d t f w by (rule written_start)
  qed
next
  show ?recomputed
    by (simp add: sd_expiryDate_calc)
qed

theorem expiry_is_start_shifted_by_months_witness:
  "sd_expiryDate (calculateSubscriptionDetails parse_date_only utc_zone example_now
      jan31_customer) = Some 1709337600000 \<and>
   date_fields 1709337600000 = (2024, 2, 2) \<and> TimeWithinDay 1709337600000 = 0"
proof -
  let ?r = "calculateSubscriptionDetails parse_date_only utc_zone example_now jan31_customer"
  let ?t = "utc_midnight 2024 1 31"
  have p: "parse_date_only (startDate jan31_customer) = Some ?t"
    by code_simp
  have wd: "written_date (startDate jan31_customer) = Some (2024, 1, 31)"
    by code_simp
  have d: "(31::int) \<le> DaysInMonth 2024 (1 - 1)"
    by code_simp
  have k: "0 \<le> utc_zone ?t True \<and> utc_zone ?t True < msPerDay"
    by (simp add: utc_zone_def fixed_zone_def msPerDay_def)
  have e: "sd_expiryDate ?r = Some 1709337600000"
    by code_simp
  have s: "shift_months (2024, 1 - 1, 31) (monthsPaid jan31_customer) = (2024, 2, 2)"
    by code_simp
  note th = expiry_is_start_shifted_by_months [where parse = parse_date_only
      and tza = utc_zone and now = example_now and c = jan31_customer]
  from th p obtain new
    where f: "date_fields new =
        shift_months (date_fields (LocalTime utc_zone ?t)) (monthsPaid jan31_customer)"
      and w: "TimeWithinDay new = TimeWithinDay (LocalTime utc_zone ?t)"
      and c: "sd_expiryDate ?r = TimeClip (UTC utc_zone new)"
    by blast
  have z: "utc_zone new False = utc_zone ?t True"
    by (simp add: utc_zone_def fixed_zone_def)
  from th wd d p f w k z
  have "date_fields (UTC utc_zone new) =
          shift_months (2024, 1 - 1, 31) (monthsPaid jan31_customer) \<and>
        TimeWithinDay (UTC utc_zone new) = 0"
    by blast
  moreover have "TimeClip (UTC utc_zone new) = Some 1709337600000"
    unfolding c[symmetric] by (rule e)
  then have "UTC utc_zone new = 1709337600000"
    by (simp add: TimeClip_Some)
  ultimately show ?thesis
    using e s by simp
qed

text \<open>
  The claim as worded fails west of UTC. Five hours behind UTC, the customer whose start
  date is 2024-03-01 with one month paid starts, in local time, at 7 p.m. of 29 February;
  the expiry date is 7 p.m. of 29 March, which is midnight UTC of 30 March. The start date
  plus one month is 1 April.
\<close>

theorem expiry_west_of_UTC_counterexample:
  "written_date (startDate march1_customer) = Some (2024, 3, 1) \<and>
   monthsPaid march1_customer = 1 \<and>
   shift_months (2024, 2, 1) 1 = (2024, 3, 1) \<and>
   sd_expiryDate (calculateSubscriptionDetails parse_date_only (fixed_zone (- 18000000))
      example_now march1_customer) = Some 1711756800000 \<and>
   date_fields (LocalTime (fixed_zone (- 18000000)) 1711756800000) = (2024, 2, 29) \<and>
   date_fields 1711756800000 = (2024, 2, 30) \<and>
   date_fields (LocalTime (fixed_zone (- 18000000)) 1711756800000) \<noteq> shift_months (2024, 2, 1) 1 \<and>
   date_fields 1711756800000 \<noteq> shift_months (2024, 2, 1) 1"
  by code_simp

section \<open>Delete\<close>

lemma delete_unique_id:
  assumes "id_field c = i" "i \<notin> id_field ` set pre" "i \<notin> id_field ` set post"
  shows "filter (\<lambda>x. id_field x \<noteq> i) (pre @ c # post) = pre @ post"
proof -
  have "filter (\<lambda>x. id_field x \<noteq> i) pre = pre"
    using assms(2) by (intro filter_True) auto
  moreover have "filter (\<lambda>x. id_field x \<noteq> i) post = post"
    using assms(3) by (intro filter_True) auto
  ultimately show ?thesis
    using assms(1) by simp
qed

text \<open>
  C4, as the code has it. Without confirmation the list is unchanged. With it, the records
  carrying the given id are removed, all of them, and the others stay as and where they
  are: exactly one record goes when exactly one carries the id, none when none does.
\<close>

theorem delete_customer:
  "handleDeleteCustomer False i cs = cs \<and>
   handleDeleteCustomer True i cs = filter (\<lambda>c. id_field c \<noteq> i) cs \<and>
   length (handleDeleteCustomer True i cs) + length (filter (\<lambda>c. id_field c = i) cs) = length cs \<and>
   (\<forall>pre c post.
      cs = pre @ c # post \<and> id_field c = i \<and> i \<notin> id_field ` set pre \<and> i \<notin> id_field ` set post
      \<longrightarrow> handleDeleteCustomer True i cs = pre @ post) \<and>
   (i \<notin> id_field ` set cs \<longrightarrow> handleDeleteCustomer True i cs = cs)"
proof (intro conjI allI impI)
  show "handleDeleteCustomer False i cs = cs"
    by (simp add: handleDeleteCustomer_def)
  show "handleDeleteCustomer True i cs = filter (\<lambda>c. id_field c \<noteq> i) cs"
    by (simp add: handleDeleteCustomer_def)
  show "length (handleDeleteCustomer True i cs) + length (filter (\<lambda>c. id_field c = i) cs)
          = length cs"
    using sum_length_filter_compl[of "\<lambda>c. id_field c = i" cs]
    by (simp add: handleDeleteCustomer_def)
next
  fix pre c post
  assume a: "cs = pre @ c # post \<and> id_field c = i \<and> i \<notin> id_field ` set pre \<and>
            i \<notin> id_field ` set post"
  then have "filter (\<lambda>x. id_field x \<noteq> i) (pre @ c # post) = pre @ post"
    by (intro delete_unique_id) simp_all
  then show "handleDeleteCustomer True i cs = pre @ post"
    using a by (simp add: handleDeleteCustomer_def)
next
  assume "i \<notin> id_field ` set cs"
  then have "filter (\<lambda>c. id_field c \<noteq> i) cs = cs"
    by (intro filter_True) auto
  then show "handleDeleteCustomer True i cs = cs"
    by (simp add: handleDeleteCustomer_def)
qed

theorem delete_customer_witness:
  "handleDeleteCustomer True (id_field example_customer) [example_customer, jan31_customer]
     = [jan31_customer]"
proof -
  have "[example_customer, jan31_customer] = [] @ example_customer # [jan31_customer] \<and>
        id_field example_customer = id_field example_customer \<and>
        id_field example_customer \<notin> id_field ` set [] \<and>
        id_field example_customer \<notin> id_field ` set [jan31_customer]"
    by (simp add: example_customer_def jan31_customer_def)
  with delete_customer [of "id_field example_customer" "[example_customer, jan31_customer]"]
  have "handleDeleteCustomer True (id_field example_customer) [example_customer, jan31_customer]
          = [] @ [jan31_customer]"
    by blast
  then show ?thesis
    by simp
qed

text \<open>
  The claim as worded, exactly one record removed for every list and every id, fails for
  an id that no record carries: nothing is removed.
\<close>

theorem delete_absent_id_counterexample:
  "length (handleDeleteCustomer True ''0'' [example_customer]) \<noteq> length [example_customer] - 1"
  by (simp add: handleDeleteCustomer_def example_customer_def)

section \<open>Update\<close>

text \<open>
  C10. An update keeps the length of the list and every position: a record with another
  id is unchanged, a record with the id of the new data is replaced by the new data, and
  when no record has that id the list is unchanged.
\<close>

theorem update_customer:
  "length (handleSaveCustomer now (WithId c) cs) = length cs \<and>
   (\<forall>k. k < length cs \<longrightarrow>
      handleSaveCustomer now (WithId c) cs ! k =
        (if id_field (cs ! k) = id_field c then c else cs ! k)) \<and>
   (id_field c \<notin> id_field ` set cs \<longrightarrow> handleSaveCustomer now (WithId c) cs = cs)"
proof (intro conjI allI impI)
  show "length (handleSaveCustomer now (WithId c) cs) = length cs"
    by (simp add: handleSaveCustomer_def)
next
  fix k
  assume "k < length cs"
  then show "handleSaveCustomer now (WithId c) cs ! k =
               (if id_field (cs ! k) = id_field c then c else cs ! k)"
    by (simp add: handleSaveCustomer_def)
next
  assume a: "id_field c \<notin> id_field ` set cs"
  have "id_field x \<noteq> id_field c" if "x \<in> set cs" for x
    using a that by (metis imageI)
  then have "map (\<lambda>x. if id_field x = id_field c then c else x) cs = map (\<lambda>x. x) cs"
    by (intro map_cong) simp_all
  then show "handleSaveCustomer now (WithId c) cs = cs"
    by (simp add: handleSaveCustomer_def)
qed

theorem update_customer_witness:
  "handleSaveCustomer example_now (WithId jan31_edited) [example_customer, jan31_customer] ! 0
     = example_customer \<and>
   handleSaveCustomer example_now (WithId jan31_edited) [example_customer, jan31_customer] ! 1
     = jan31_edited"
proof -
  have "(0::nat) < length [example_customer, jan31_customer]"
    and "(1::nat) < length [example_customer, jan31_customer]"
    by simp_all
  with update_customer [of example_now jan31_edited "[example_customer, jan31_customer]"]
  have "handleSaveCustomer example_now (WithId jan31_edited) [example_customer, jan31_customer] ! 0
          = (if id_field ([example_customer, jan31_customer] ! 0) = id_field jan31_edited
             then jan31_edited else [example_customer, jan31_customer] ! 0)"
    and "handleSaveCustomer example_now (WithId jan31_edited) [example_customer, jan31_customer] ! 1
          = (if id_field ([example_customer, jan31_customer] ! 1) = id_field jan31_edited
             then jan31_edited else [example_customer, jan31_customer] ! 1)"
    by blast+
  then show ?thesis
    by (simp add: example_customer_def jan31_customer_def jan31_edited_def)
qed

section \<open>Ids\<close>

lemma digit_of_digit_char:
  assumes "0 \<le> d" "d < 10"
  shows "digit_of (digit_char d) = Some d"
proof -
  have "d = 0 \<or> d = 1 \<or> d = 2 \<or> d = 3 \<or> d = 4 \<or> d = 5 \<or> d = 6 \<or> d = 7 \<or> d = 8 \<or> d = 9"
    using assms by presburger
  then show ?thesis
    by (elim disjE) (simp_all add: digit_char_def digit_of_def)
qed

lemma digits_value_append:
  "digits_value acc (xs @ ys) =
     (case digits_value acc xs of None \<Rightarrow> None | Some v \<Rightarrow> digits_value v ys)"
  by (induction xs arbitrary: acc) (simp_all split: option.splits)

text \<open>Reading the digits of a number back gives the number.\<close>

lemma digits_value_digits_of:
  "0 \<le> n \<Longrightarrow> digits_value 0 (digits_of n) = Some n"
proof (induction n rule: digits_of.induct)
  case (1 n)
  show ?case
  proof (cases "n < 10")
    case True
    then show ?thesis
      using "1.prems" by (subst digits_of.simps) (simp add: digit_of_digit_char)
  next
    case False
    have d: "digit_of (digit_char (n mod 10)) = Some (n mod 10)"
      by (intro digit_of_digit_char) simp_all
    have "digits_value 0 (digits_of (n div 10)) = Some (n div 10)"
      using "1.IH" False "1.prems" by simp
    then show ?thesis
      using False d by (subst digits_of.simps) (simp add: digits_value_append)
  qed
qed

lemma digits_value_all_digits:
  "digits_value acc s = Some v \<Longrightarrow> c \<in> set s \<Longrightarrow> digit_of c \<noteq> None"
  by (induction s arbitrary: acc) (auto split: option.splits)

lemma no_minus_in_digits:
  assumes "0 \<le> n"
  shows "CHR ''-'' \<notin> set (digits_of n)"
proof
  assume "CHR ''-'' \<in> set (digits_of n)"
  then have "digit_of CHR ''-'' \<noteq> None"
    using digits_value_digits_of[OF assms] digits_value_all_digits by blast
  then show False
    by (simp add: digit_of_def)
qed

lemma string_of_nat_inj: "string_of_nat i = string_of_nat j \<Longrightarrow> i = j"
proof -
  assume "string_of_nat i = string_of_nat j"
  then have "digits_value 0 (digits_of (int i)) = digits_value 0 (digits_of (int j))"
    by (simp add: string_of_nat_def)
  then show "i = j"
    by (simp add: digits_value_digits_of)
qed

text \<open>
  The part after the last minus sign of \<^verbatim>\<open>`${time}-${index}`\<close> is the index, whatever
  the time is.
\<close>

lemma suffix_after_last_minus:
  assumes "CHR ''-'' \<notin> set d" "CHR ''-'' \<notin> set d'" "a @ CHR ''-'' # d = a' @ CHR ''-'' # d'"
  shows "d = d'"
proof -
  have "rev d @ CHR ''-'' # rev a = rev d' @ CHR ''-'' # rev a'"
    using arg_cong[OF assms(3), of rev] by simp
  then have "takeWhile (\<lambda>c. c \<noteq> CHR ''-'') (rev d @ CHR ''-'' # rev a) =
             takeWhile (\<lambda>c. c \<noteq> CHR ''-'') (rev d' @ CHR ''-'' # rev a')"
    by simp
  moreover have "takeWhile (\<lambda>c. c \<noteq> CHR ''-'') (rev d @ CHR ''-'' # rev a) = rev d"
    using assms(1) by (subst takeWhile_append2) auto
  moreover have "takeWhile (\<lambda>c. c \<noteq> CHR ''-'') (rev d' @ CHR ''-'' # rev a') = rev d'"
    using assms(2) by (subst takeWhile_append2) auto
  ultimately show ?thesis
    by simp
qed

lemma import_id_inj:
  assumes "string_of_int t @ ''-'' @ string_of_nat i = string_of_int u @ ''-'' @ string_of_nat j"
  shows "i = j"
proof -
  have e: "string_of_int t @ CHR ''-'' # string_of_nat i =
           string_of_int u @ CHR ''-'' # string_of_nat j"
    using assms by (simp only: append_Cons append_Nil)
  have "CHR ''-'' \<notin> set (string_of_nat i)" "CHR ''-'' \<notin> set (string_of_nat j)"
    unfolding string_of_nat_def by (rule no_minus_in_digits, simp)+
  then have "string_of_nat i = string_of_nat j"
    using e by (rule suffix_after_last_minus)
  then show ?thesis
    by (rule string_of_nat_inj)
qed

section \<open>Create and bulk import\<close>

lemma ids_customersToAdd:
  "map id_field (customersToAdd clock rows) =
     map (\<lambda>i. string_of_int (clock i) @ ''-'' @ string_of_nat i) [0 ..< length rows]"
  by (rule nth_equalityI) (simp_all add: customersToAdd_def)

lemma distinct_ids_customersToAdd: "distinct (map id_field (customersToAdd clock rows))"
  unfolding ids_customersToAdd
  by (simp add: distinct_map inj_on_def del: append_Cons append_Nil) (meson import_id_inj)

text \<open>
  C9, as the code has it. A created record is appended after the existing records, which
  stay as they are, and its id is the decimal time stamp; a bulk import appends one record
  per row, with the id \<^verbatim>\<open>time-index\<close>. Ids of one import are pairwise distinct. No id is
  checked against the list: the ids stay unique exactly when the new ones do not occur in
  it already.
\<close>

theorem create_and_import_ids:
  "handleSaveCustomer now (WithoutId f) cs =
     cs @ [\<lparr> id_field = string_of_int now, customerName = cf_customerName f,
             profileName = cf_profileName f, startDate = cf_startDate f,
             monthsPaid = cf_monthsPaid f, amount = cf_amount f, note_field = cf_note f,
             netflixEmail = cf_netflixEmail f, accountType = cf_accountType f \<rparr>] \<and>
   (distinct (map id_field (handleSaveCustomer now (WithoutId f) cs)) \<longleftrightarrow>
      distinct (map id_field cs) \<and> string_of_int now \<notin> id_field ` set cs) \<and>
   fst (handleImportCustomers clock rows cs) = cs @ customersToAdd clock rows \<and>
   map id_field (customersToAdd clock rows) =
     map (\<lambda>i. string_of_int (clock i) @ ''-'' @ string_of_nat i) [0 ..< length rows] \<and>
   distinct (map id_field (customersToAdd clock rows)) \<and>
   (distinct (map id_field (fst (handleImportCustomers clock rows cs))) \<longleftrightarrow>
      distinct (map id_field cs) \<and>
      id_field ` set cs \<inter> id_field ` set (customersToAdd clock rows) = {})"
proof (intro conjI)
  show "handleSaveCustomer now (WithoutId f) cs =
     cs @ [\<lparr> id_field = string_of_int now, customerName = cf_customerName f,
             profileName = cf_profileName f, startDate = cf_startDate f,
             monthsPaid = cf_monthsPaid f, amount = cf_amount f, note_field = cf_note f,
             netflixEmail = cf_netflixEmail f, accountType = cf_accountType f \<rparr>]"
    by (simp add: handleSaveCustomer_def)
  show "distinct (map id_field (handleSaveCustomer now (WithoutId f) cs)) \<longleftrightarrow>
      distinct (map id_field cs) \<and> string_of_int now \<notin> id_field ` set cs"
    by (auto simp: handleSaveCustomer_def)
  show "fst (handleImportCustomers clock rows cs) = cs @ customersToAdd clock rows"
    by (simp add: handleImportCustomers_def Let_def)
  show "map id_field (customersToAdd clock rows) =
     map (\<lambda>i. string_of_int (clock i) @ ''-'' @ string_of_nat i) [0 ..< length rows]"
    by (rule ids_customersToAdd)
  show "distinct (map id_field (customersToAdd clock rows))"
    by (rule distinct_ids_customersToAdd)
  show "distinct (map id_field (fst (handleImportCustomers clock rows cs))) \<longleftrightarrow>
      distinct (map id_field cs) \<and>
      id_field ` set cs \<inter> id_field ` set (customersToAdd clock rows) = {}"
    using distinct_ids_customersToAdd[of clock rows]
    by (simp add: handleImportCustomers_def Let_def)
qed

theorem create_and_import_ids_witness:
  "distinct (map id_field (handleSaveCustomer example_now (WithoutId example_fields)
     [example_customer, jan31_customer])) \<and>
   map id_field (customersToAdd (\<lambda>i. example_now) example_rows)
     = [''1710072000000-0'', ''1710072000000-1'']"
proof -
  note t = create_and_import_ids [of example_now example_fields
      "[example_customer, jan31_customer]" "\<lambda>i. example_now" example_rows]
  have fresh: "distinct (map id_field [example_customer, jan31_customer]) \<and>
        string_of_int example_now \<notin> id_field ` set [example_customer, jan31_customer]"
    by code_simp
  have ids: "map (\<lambda>i. string_of_int ((\<lambda>i. example_now) i) @ ''-'' @ string_of_nat i)
                   [0 ..< length example_rows] = [''1710072000000-0'', ''1710072000000-1'']"
    by code_simp
  have "distinct (map id_field (handleSaveCustomer example_now (WithoutId example_fields)
     [example_customer, jan31_customer]))"
    using t fresh by blast
  moreover have "map id_field (customersToAdd (\<lambda>i. example_now) example_rows)
     = [''1710072000000-0'', ''1710072000000-1'']"
    using t ids by (elim conjE) (simp only:)
  ultimately show ?thesis
    by (rule conjI)
qed

text \<open>
  The claim as worded, a new id that is always unique, fails when the clock reads the time
  stamp of an existing record: the list then holds the id twice.
\<close>

theorem create_same_timestamp_counterexample:
  "\<not> distinct (map id_field
       (handleSaveCustomer 1718000000000 (WithoutId example_fields) [example_customer]))"
  by code_simp

section \<open>Sorting with a comparator\<close>

lemma mset_insert_by: "mset (insert_by cmp x ys) = add_mset x (mset ys)"
  by (induction ys) simp_all

lemma mset_array_sort: "mset (array_sort cmp xs) = mset xs"
  by (induction xs) (simp_all add: array_sort_def mset_insert_by)

lemma set_insert_by: "set (insert_by cmp x ys) = insert x (set ys)"
  by (induction ys) auto

lemma set_array_sort: "set (array_sort cmp xs) = set xs"
  using mset_array_sort[of cmp xs] by (metis set_mset_mset)

text \<open>
  Inserting keeps a list sorted by a transitive relation \<open>R\<close> when the comparator places
  the new element in agreement with \<open>R\<close>.
\<close>

lemma sorted_wrt_insert_by:
  assumes "sorted_wrt R ys"
    and "\<And>y. y \<in> set ys \<Longrightarrow> if cmp x y \<le> 0 then R x y else R y x"
    and "\<And>a b c. a \<in> S \<Longrightarrow> b \<in> S \<Longrightarrow> c \<in> S \<Longrightarrow> R a b \<Longrightarrow> R b c \<Longrightarrow> R a c"
    and "x \<in> S" "set ys \<subseteq> S"
  shows "sorted_wrt R (insert_by cmp x ys)"
  using assms(1,2,5)
proof (induction ys)
  case Nil
  show ?case by simp
next
  case (Cons y ys)
  have yS: "y \<in> S" and ysS: "set ys \<subseteq> S"
    using Cons.prems(3) by simp_all
  show ?case
  proof (cases "cmp x y \<le> 0")
    case True
    then have xy: "R x y"
      using Cons.prems(2)[of y] by simp
    have "R x z" if "z \<in> set ys" for z
    proof -
      have "R y z" using Cons.prems(1) that by simp
      moreover have "z \<in> S" using that ysS by blast
      ultimately show ?thesis
        using xy assms(3)[of x y z] assms(4) yS by blast
    qed
    then show ?thesis
      using True xy Cons.prems(1) by auto
  next
    case False
    then have yx: "R y x"
      using Cons.prems(2)[of y] by simp
    have "sorted_wrt R (insert_by cmp x ys)"
    proof (rule Cons.IH)
      show "sorted_wrt R ys" using Cons.prems(1) by simp
      show "\<And>z. z \<in> set ys \<Longrightarrow> if cmp x z \<le> 0 then R x z else R z x"
        using Cons.prems(2) by simp
      show "set ys \<subseteq> S" by (rule ysS)
    qed
    moreover have "R y z" if "z \<in> set (insert_by cmp x ys)" for z
      using that yx Cons.prems(1) by (auto simp: set_insert_by)
    ultimately show ?thesis
      using False by simp
  qed
qed

text \<open>Two lists with the same elements, both sorted by an asymmetric relation, are equal.\<close>

lemma sorted_wrt_unique:
  assumes "sorted_wrt R xs" "sorted_wrt R ys" "set xs = set ys"
    and "\<And>a b. a \<in> set xs \<Longrightarrow> b \<in> set xs \<Longrightarrow> R a b \<Longrightarrow> \<not> R b a"
  shows "xs = ys"
  using assms
proof (induction xs arbitrary: ys)
  case Nil
  then show ?case by simp
next
  case (Cons x xs)
  from Cons.prems(3) obtain y ys' where ys: "ys = y # ys'"
    by (cases ys) auto
  have irrefl: "\<not> R a a" if "a \<in> set (x # xs)" for a
    using Cons.prems(4)[of a a] that by blast
  have x_notin: "x \<notin> set xs"
    using Cons.prems(1) irrefl[of x] by auto
  have y_in: "y \<in> set (x # xs)"
    using Cons.prems(3) ys by auto
  have y_notin: "y \<notin> set ys'"
    using Cons.prems(2) ys irrefl[OF y_in] by auto
  have xy: "x = y"
  proof (rule ccontr)
    assume ne: "x \<noteq> y"
    then have "x \<in> set ys'" "y \<in> set xs"
      using Cons.prems(3) ys by auto
    then have "R y x" "R x y"
      using Cons.prems(1,2) ys by auto
    then show False
      using Cons.prems(4)[of x y] y_in by simp
  qed
  have "set xs = set ys'"
    using Cons.prems(3) ys xy x_notin y_notin by auto
  moreover have "sorted_wrt R xs" "sorted_wrt R ys'"
    using Cons.prems(1,2) ys by simp_all
  moreover have "\<not> R b a" if "a \<in> set xs" "b \<in> set xs" "R a b" for a b
    using Cons.prems(4)[of a b] that by simp
  ultimately have "xs = ys'"
    by (intro Cons.IH)
  then show ?case
    using xy ys by simp
qed

subsection \<open>The order of the sort keys\<close>

lemma if_fun_cases: "P f \<Longrightarrow> P g \<Longrightarrow> P (\<lambda>c. if b then f c else g c)"
  by (cases b) simp_all

lemma field_value_kind:
  "(\<forall>c. \<exists>s. field_value k c = VStr s) \<or>
   (\<forall>c. field_value k c = VNaN \<or> (\<exists>n. field_value k c = VNum n)) \<or>
   (\<forall>c. field_value k c = VUndefined)"
proof -
  define Q :: "(ProcessedCustomer \<Rightarrow> jsval) \<Rightarrow> bool" where
    "Q f \<longleftrightarrow> (\<forall>c. \<exists>s. f c = VStr s) \<or> (\<forall>c. f c = VNaN \<or> (\<exists>n. f c = VNum n)) \<or>
       (\<forall>c. f c = VUndefined)" for f
  have str: "Q (\<lambda>c. VStr (g c))" for g
    by (simp add: Q_def)
  have num: "Q (\<lambda>c. VNum (g c))" for g
    by (simp add: Q_def)
  have date: "Q (\<lambda>c. date_value (g c))" for g
  proof -
    have "date_value d = VNaN \<or> (\<exists>n. date_value d = VNum n)" for d
      by (cases d) (simp_all add: date_value_def)
    then show ?thesis
      unfolding Q_def by blast
  qed
  have number: "Q (\<lambda>c. number_value (g c))" for g
  proof -
    have "number_value d = VNaN \<or> (\<exists>n. number_value d = VNum n)" for d
      by (cases d) (simp_all add: number_value_def)
    then show ?thesis
      unfolding Q_def by blast
  qed
  have undef: "Q (\<lambda>c. VUndefined)"
    by (simp add: Q_def)
  have "Q (\<lambda>c. field_value k c)"
    unfolding field_value_def
    by (intro if_fun_cases[where P = Q] str num date number undef)
  then show ?thesis
    by (simp add: Q_def)
qed

lemma comparable_keys_same_kind:
  assumes "\<forall>c \<in> set xs. comparable (field_value k c)"
  shows "(\<forall>c \<in> set xs. \<exists>n. field_value k c = VNum n) \<or>
         (\<forall>c \<in> set xs. \<exists>s. field_value k c = VStr s)"
proof -
  consider "\<forall>c. \<exists>s. field_value k c = VStr s"
    | "\<forall>c. field_value k c = VNaN \<or> (\<exists>n. field_value k c = VNum n)"
    | "\<forall>c. field_value k c = VUndefined"
    using field_value_kind[of k] by blast
  then show ?thesis
  proof cases
    case 1
    then show ?thesis by blast
  next
    case 2
    have "\<exists>n. field_value k c = VNum n" if "c \<in> set xs" for c
    proof -
      have "comparable (field_value k c)" using assms that by blast
      moreover have "field_value k c = VNaN \<or> (\<exists>n. field_value k c = VNum n)"
        using 2 by blast
      ultimately show ?thesis by (auto simp: comparable_def)
    qed
    then show ?thesis by blast
  next
    case 3
    have "\<exists>n. field_value k c = VNum n" if "c \<in> set xs" for c
    proof -
      have "comparable (field_value k c)" using assms that by blast
      then show ?thesis using 3 by (simp add: comparable_def)
    qed
    then show ?thesis by blast
  qed
qed

text \<open>On numbers alone, and on strings alone, \<^verbatim>\<open><\<close> is a strict linear order.\<close>

lemma js_less_linear:
  assumes "(\<forall>v \<in> K. \<exists>n. v = VNum n) \<or> (\<forall>v \<in> K. \<exists>s. v = VStr s)"
  shows "\<And>a b. a \<in> K \<Longrightarrow> b \<in> K \<Longrightarrow> a \<noteq> b \<Longrightarrow> js_less a b \<or> js_less b a"
    and "\<And>a b c. a \<in> K \<Longrightarrow> b \<in> K \<Longrightarrow> c \<in> K \<Longrightarrow> js_less a b \<Longrightarrow> js_less b c \<Longrightarrow> js_less a c"
    and "\<And>a b. a \<in> K \<Longrightarrow> b \<in> K \<Longrightarrow> js_less a b \<Longrightarrow> \<not> js_less b a"
proof -
  show "js_less a b \<or> js_less b a" if "a \<in> K" "b \<in> K" "a \<noteq> b" for a b
    using assms that by (cases a; cases b) auto
  show "js_less a c" if "a \<in> K" "b \<in> K" "c \<in> K" "js_less a b" "js_less b c" for a b c
    using assms that by (cases a; cases b; cases c) auto
  show "\<not> js_less b a" if "a \<in> K" "b \<in> K" "js_less a b" for a b
    using assms that by (cases a; cases b) auto
qed

lemma compare_by_ascending:
  "compare_by \<lparr>key = k, direction = ascending\<rparr> a b =
     (if js_less (field_value k b) (field_value k a) then 1
      else if js_less (field_value k a) (field_value k b) then - 1 else 0)"
  by (simp add: compare_by_def js_greater_def Let_def)

lemma compare_by_descending:
  "compare_by \<lparr>key = k, direction = descending\<rparr> a b =
     (if js_less (field_value k b) (field_value k a) then - 1
      else if js_less (field_value k a) (field_value k b) then 1 else 0)"
  by (simp add: compare_by_def js_greater_def Let_def)

text \<open>
  With comparable, pairwise distinct keys the ascending sort puts the keys in strictly
  increasing order, and the descending sort in strictly decreasing order.
\<close>

lemma array_sort_ascending:
  assumes cmp: "\<forall>c \<in> set xs. comparable (field_value k c)"
    and dist: "distinct (map (field_value k) xs)"
  shows "sorted_wrt (\<lambda>a b. js_less (field_value k a) (field_value k b))
           (array_sort (compare_by \<lparr>key = k, direction = ascending\<rparr>) xs)"
proof -
  define K where "K = field_value k ` set xs"
  have kind: "(\<forall>v \<in> K. \<exists>n. v = VNum n) \<or> (\<forall>v \<in> K. \<exists>s. v = VStr s)"
    using comparable_keys_same_kind[OF cmp] by (auto simp: K_def)
  note lin = js_less_linear[OF kind]
  let ?R = "\<lambda>a b. js_less (field_value k a) (field_value k b)"
  let ?c = "compare_by \<lparr>key = k, direction = ascending\<rparr>"
  have "sorted_wrt ?R (foldr (insert_by ?c) ys [])"
    if "set ys \<subseteq> set xs" "distinct (map (field_value k) ys)" for ys
    using that
  proof (induction ys)
    case Nil
    show ?case by simp
  next
    case (Cons y ys)
    have sub: "set ys \<subseteq> set xs" and yx: "y \<in> set xs"
      using Cons.prems(1) by simp_all
    have IH: "sorted_wrt ?R (foldr (insert_by ?c) ys [])"
      using Cons.IH sub Cons.prems(2) by simp
    have seteq: "set (foldr (insert_by ?c) ys []) = set ys"
      using set_array_sort[of ?c ys] by (simp add: array_sort_def)
    have "sorted_wrt ?R (insert_by ?c y (foldr (insert_by ?c) ys []))"
    proof (rule sorted_wrt_insert_by[where S = "set xs"])
      show "sorted_wrt ?R (foldr (insert_by ?c) ys [])" by (rule IH)
      show "y \<in> set xs" by (rule yx)
      show "set (foldr (insert_by ?c) ys []) \<subseteq> set xs"
        using seteq sub by simp
    next
      fix z
      assume "z \<in> set (foldr (insert_by ?c) ys [])"
      then have z: "z \<in> set ys" using seteq by simp
      then have ne: "field_value k y \<noteq> field_value k z"
        using Cons.prems(2) by auto
      have "field_value k y \<in> K" "field_value k z \<in> K"
        using yx z sub by (auto simp: K_def)
      then show "if ?c y z \<le> 0 then ?R y z else ?R z y"
        using lin(1)[of "field_value k y" "field_value k z"] ne
          lin(3)[of "field_value k y" "field_value k z"]
        by (auto simp: compare_by_ascending)
    next
      fix a b c
      assume "a \<in> set xs" "b \<in> set xs" "c \<in> set xs" "?R a b" "?R b c"
      then show "?R a c"
        using lin(2)[of "field_value k a" "field_value k b" "field_value k c"]
        by (auto simp: K_def)
    qed
    then show ?case by simp
  qed
  then show ?thesis
    using dist by (simp add: array_sort_def)
qed

lemma array_sort_descending:
  assumes cmp: "\<forall>c \<in> set xs. comparable (field_value k c)"
    and dist: "distinct (map (field_value k) xs)"
  shows "sorted_wrt (\<lambda>a b. js_less (field_value k b) (field_value k a))
           (array_sort (compare_by \<lparr>key = k, direction = descending\<rparr>) xs)"
proof -
  define K where "K = field_value k ` set xs"
  have kind: "(\<forall>v \<in> K. \<exists>n. v = VNum n) \<or> (\<forall>v \<in> K. \<exists>s. v = VStr s)"
    using comparable_keys_same_kind[OF cmp] by (auto simp: K_def)
  note lin = js_less_linear[OF kind]
  let ?R = "\<lambda>a b. js_less (field_value k b) (field_value k a)"
  let ?c = "compare_by \<lparr>key = k, direction = descending\<rparr>"
  have "sorted_wrt ?R (foldr (insert_by ?c) ys [])"
    if "set ys \<subseteq> set xs" "distinct (map (field_value k) ys)" for ys
    using that
  proof (induction ys)
    case Nil
    show ?case by simp
  next
    case (Cons y ys)
    have sub: "set ys \<subseteq> set xs" and yx: "y \<in> set xs"
      using Cons.prems(1) by simp_all
    have IH: "sorted_wrt ?R (foldr (insert_by ?c) ys [])"
      using Cons.IH sub Cons.prems(2) by simp
    have seteq: "set (foldr (insert_by ?c) ys []) = set ys"
      using set_array_sort[of ?c ys] by (simp add: array_sort_def)
    have "sorted_wrt ?R (insert_by ?c y (foldr (insert_by ?c) ys []))"
    proof (rule sorted_wrt_insert_by[where S = "set xs"])
      show "sorted_wrt ?R (foldr (insert_by ?c) ys [])" by (rule IH)
      show "y \<in> set xs" by (rule yx)
      show "set (foldr (insert_by ?c) ys []) \<subseteq> set xs"
        using seteq sub by simp
    next
      fix z
      assume "z \<in> set (foldr (insert_by ?c) ys [])"
      then have z: "z \<in> set ys" using seteq by simp
      then have ne: "field_value k y \<noteq> field_value k z"
        using Cons.prems(2) by auto
      have "field_value k y \<in> K" "field_value k z \<in> K"
        using yx z sub by (auto simp: K_def)
      then show "if ?c y z \<le> 0 then ?R y z else ?R z y"
        using lin(1)[of "field_value k y" "field_value k z"] ne
          lin(3)[of "field_value k y" "field_value k z"]
        by (auto simp: compare_by_descending)
    next
      fix a b c
      assume "a \<in> set xs" "b \<in> set xs" "c \<in> set xs" "?R a b" "?R b c"
      then show "?R a c"
        using lin(2)[of "field_value k c" "field_value k b" "field_value k a"]
        by (auto simp: K_def)
    qed
    then show ?case by simp
  qed
  then show ?thesis
    using dist by (simp add: array_sort_def)
qed

section \<open>Properties of the filter and sort view\<close>

text \<open>The view is the sorted list of the records that pass both filters.\<close>

lemma displayCustomers_filter:
  "displayCustomers fs fe cfg ps =
     (if key cfg \<noteq> []
      then array_sort (compare_by cfg)
             (filter (\<lambda>c. (fs = AllStatuses \<or> fs = OnlyStatus (status c)) \<and>
                          (fe = ''All'' \<or> netflixEmail c = fe)) ps)
      else filter (\<lambda>c. (fs = AllStatuses \<or> fs = OnlyStatus (status c)) \<and>
                        (fe = ''All'' \<or> netflixEmail c = fe)) ps)"
proof (cases fs)
  case AllStatuses
  then show ?thesis
    by (simp add: displayCustomers_def Let_def)
next
  case (OnlyStatus s)
  have f: "filter (\<lambda>c. (fs = AllStatuses \<or> fs = OnlyStatus (status c)) \<and>
                        (fe = ''All'' \<or> netflixEmail c = fe)) ps =
           (if fe \<noteq> ''All'' then filter (\<lambda>c. netflixEmail c = fe) (filter (\<lambda>c. status c = s) ps)
            else filter (\<lambda>c. status c = s) ps)"
    using OnlyStatus by (auto intro!: filter_cong)
  show ?thesis
    unfolding f using OnlyStatus by (simp add: displayCustomers_def Let_def)
qed

lemma mset_displayCustomers:
  "mset (displayCustomers fs fe cfg ps) =
     filter_mset (\<lambda>c. (fs = AllStatuses \<or> fs = OnlyStatus (status c)) \<and>
                      (fe = ''All'' \<or> netflixEmail c = fe)) (mset ps)"
  by (simp add: displayCustomers_filter mset_array_sort)

text \<open>
  C5. With both filters on \<^verbatim>\<open>'All'\<close> the view holds every processed record; with a status
  filter alone it holds exactly the records of that status, which is the status computed
  by \<open>calculateSubscriptionDetails\<close>; in general a record is in the view exactly when it
  passes the status filter and the email filter.
\<close>

theorem display_filters:
  "mset (displayCustomers AllStatuses ''All'' cfg ps) = mset ps \<and>
   mset (displayCustomers (OnlyStatus s) ''All'' cfg ps) = filter_mset (\<lambda>c. status c = s) (mset ps) \<and>
   mset (displayCustomers fs fe cfg ps) =
     filter_mset (\<lambda>c. (fs = AllStatuses \<or> fs = OnlyStatus (status c)) \<and>
                      (fe = ''All'' \<or> netflixEmail c = fe)) (mset ps) \<and>
   (\<forall>c. c \<in> set (displayCustomers fs fe cfg ps) \<longleftrightarrow>
      c \<in> set ps \<and> (fs = AllStatuses \<or> fs = OnlyStatus (status c)) \<and>
      (fe = ''All'' \<or> netflixEmail c = fe)) \<and>
   map status (processedCustomers parse tza now cs) =
     map (\<lambda>c. sd_status (calculateSubscriptionDetails parse tza now c)) cs"
proof (intro conjI allI)
  show "mset (displayCustomers AllStatuses ''All'' cfg ps) = mset ps"
    by (simp add: mset_displayCustomers)
  show "mset (displayCustomers (OnlyStatus s) ''All'' cfg ps) =
          filter_mset (\<lambda>c. status c = s) (mset ps)"
    by (simp add: mset_displayCustomers eq_commute)
  show "mset (displayCustomers fs fe cfg ps) =
     filter_mset (\<lambda>c. (fs = AllStatuses \<or> fs = OnlyStatus (status c)) \<and>
                      (fe = ''All'' \<or> netflixEmail c = fe)) (mset ps)"
    by (rule mset_displayCustomers)
  show "map status (processedCustomers parse tza now cs) =
     map (\<lambda>c. sd_status (calculateSubscriptionDetails parse tza now c)) cs"
    by (simp add: processedCustomers_def process_def Let_def)
next
  fix c
  have "set (displayCustomers fs fe cfg ps) = set_mset (mset (displayCustomers fs fe cfg ps))"
    by simp
  also have "\<dots> = {c \<in> set ps. (fs = AllStatuses \<or> fs = OnlyStatus (status c)) \<and>
                      (fe = ''All'' \<or> netflixEmail c = fe)}"
    unfolding mset_displayCustomers by simp
  finally show "c \<in> set (displayCustomers fs fe cfg ps) \<longleftrightarrow>
      c \<in> set ps \<and> (fs = AllStatuses \<or> fs = OnlyStatus (status c)) \<and>
      (fe = ''All'' \<or> netflixEmail c = fe)"
    by simp
qed

theorem display_filters_witness:
  "map customerName (displayCustomers (OnlyStatus ExpiringSoon) ''All''
      \<lparr>key = ''expiryDate'', direction = ascending\<rparr>
      (processedCustomers parse_date_only utc_zone example_now mixed_customers)) = [''Aye''] \<and>
   mset (displayCustomers (OnlyStatus ExpiringSoon) ''All''
      \<lparr>key = ''expiryDate'', direction = ascending\<rparr>
      (processedCustomers parse_date_only utc_zone example_now mixed_customers))
     = filter_mset (\<lambda>c. status c = ExpiringSoon)
         (mset (processedCustomers parse_date_only utc_zone example_now mixed_customers))"
proof -
  have "map customerName (displayCustomers (OnlyStatus ExpiringSoon) ''All''
      \<lparr>key = ''expiryDate'', direction = ascending\<rparr>
      (processedCustomers parse_date_only utc_zone example_now mixed_customers)) = [''Aye'']"
    by code_simp
  then show ?thesis
    using display_filters [of "\<lparr>key = ''expiryDate'', direction = ascending\<rparr>"
        "processedCustomers parse_date_only utc_zone example_now mixed_customers" ExpiringSoon]
    by blast
qed

section \<open>Sort direction\<close>

lemma set_displayCustomers:
  "set (displayCustomers fs fe cfg ps) =
     {c \<in> set ps. (fs = AllStatuses \<or> fs = OnlyStatus (status c)) \<and>
                  (fe = ''All'' \<or> netflixEmail c = fe)}"
proof -
  have "set (displayCustomers fs fe cfg ps) = set_mset (mset (displayCustomers fs fe cfg ps))"
    by simp
  then show ?thesis
    unfolding mset_displayCustomers by simp
qed

lemma comparable_nonempty_key:
  assumes "\<forall>c \<in> set ps. comparable (field_value k c)" "ps \<noteq> []"
  shows "k \<noteq> []"
proof
  assume "k = []"
  then have "field_value k c = VUndefined" for c
    by (simp add: field_value_def)
  moreover obtain c where "c \<in> set ps"
    using assms(2) by (cases ps) auto
  ultimately show False
    using assms(1) by (auto simp: comparable_def)
qed

lemma sorted_displayCustomers:
  assumes cmp: "\<forall>c \<in> set ps. comparable (field_value k c)"
    and dist: "distinct (map (field_value k) ps)"
  shows "sorted_wrt (\<lambda>a b. js_less (field_value k a) (field_value k b))
           (displayCustomers fs fe \<lparr>key = k, direction = ascending\<rparr> ps)"
    and "sorted_wrt (\<lambda>a b. js_less (field_value k b) (field_value k a))
           (displayCustomers fs fe \<lparr>key = k, direction = descending\<rparr> ps)"
proof -
  let ?P = "\<lambda>c. (fs = AllStatuses \<or> fs = OnlyStatus (status c)) \<and>
                 (fe = ''All'' \<or> netflixEmail c = fe)"
  have c': "\<forall>c \<in> set (filter ?P ps). comparable (field_value k c)"
    using cmp by simp
  have d': "distinct (map (field_value k) (filter ?P ps))"
    using dist by (rule distinct_map_filter)
  show "sorted_wrt (\<lambda>a b. js_less (field_value k a) (field_value k b))
           (displayCustomers fs fe \<lparr>key = k, direction = ascending\<rparr> ps)"
  proof (cases "ps = []")
    case True
    then show ?thesis
      by (simp add: displayCustomers_filter array_sort_def)
  next
    case False
    then have "k \<noteq> []"
      using comparable_nonempty_key[OF cmp] by simp
    then show ?thesis
      using array_sort_ascending[OF c' d'] by (simp add: displayCustomers_filter)
  qed
  show "sorted_wrt (\<lambda>a b. js_less (field_value k b) (field_value k a))
           (displayCustomers fs fe \<lparr>key = k, direction = descending\<rparr> ps)"
  proof (cases "ps = []")
    case True
    then show ?thesis
      by (simp add: displayCustomers_filter array_sort_def)
  next
    case False
    then have "k \<noteq> []"
      using comparable_nonempty_key[OF cmp] by simp
    then show ?thesis
      using array_sort_descending[OF c' d'] by (simp add: displayCustomers_filter)
  qed
qed

lemma js_less_asym_on_list:
  assumes "\<forall>c \<in> set ps. comparable (field_value k c)"
    and "a \<in> set ps" "b \<in> set ps" "js_less (field_value k a) (field_value k b)"
  shows "\<not> js_less (field_value k b) (field_value k a)"
proof -
  have "(\<forall>v \<in> field_value k ` set ps. \<exists>n. v = VNum n) \<or>
        (\<forall>v \<in> field_value k ` set ps. \<exists>s. v = VStr s)"
    using comparable_keys_same_kind[OF assms(1)] by auto
  from js_less_linear(3)[OF this, of "field_value k a" "field_value k b"] assms(2-4)
  show ?thesis by simp
qed

text \<open>The descending view is the ascending view reversed.\<close>

lemma descending_is_reverse:
  assumes cmp: "\<forall>c \<in> set ps. comparable (field_value k c)"
    and dist: "distinct (map (field_value k) ps)"
  shows "displayCustomers fs fe \<lparr>key = k, direction = descending\<rparr> ps =
           rev (displayCustomers fs fe \<lparr>key = k, direction = ascending\<rparr> ps)"
proof -
  let ?asc = "displayCustomers fs fe \<lparr>key = k, direction = ascending\<rparr> ps"
  let ?desc = "displayCustomers fs fe \<lparr>key = k, direction = descending\<rparr> ps"
  let ?R = "\<lambda>a b. js_less (field_value k a) (field_value k b)"
  have "sorted_wrt ?R ?asc"
    using sorted_displayCustomers(1)[OF cmp dist] .
  moreover have "sorted_wrt ?R (rev ?desc)"
    using sorted_displayCustomers(2)[OF cmp dist] by (simp add: sorted_wrt_rev)
  moreover have "set ?asc = set (rev ?desc)"
    by (simp add: set_displayCustomers)
  moreover have "\<not> ?R b a" if "a \<in> set ?asc" "b \<in> set ?asc" "?R a b" for a b
    using that js_less_asym_on_list[OF cmp, of a b] by (simp add: set_displayCustomers)
  ultimately have "?asc = rev ?desc"
    by (rule sorted_wrt_unique)
  then show ?thesis
    by (simp add: rev_swap)
qed

text \<open>The view does not depend on the order in which the records are stored.\<close>

lemma display_permutation:
  assumes cmp: "\<forall>c \<in> set ps. comparable (field_value k c)"
    and dist: "distinct (map (field_value k) ps)"
    and perm: "mset qs = mset ps"
  shows "displayCustomers fs fe \<lparr>key = k, direction = d\<rparr> qs =
           displayCustomers fs fe \<lparr>key = k, direction = d\<rparr> ps"
proof -
  have sets: "set qs = set ps"
    using perm by (rule mset_eq_setD)
  have cmpq: "\<forall>c \<in> set qs. comparable (field_value k c)"
    using cmp sets by simp
  have "mset (map (field_value k) qs) = mset (map (field_value k) ps)"
    using perm by simp
  then have distq: "distinct (map (field_value k) qs)"
    using dist by (metis mset_eq_imp_distinct_iff)
  have seteq: "set (displayCustomers fs fe \<lparr>key = k, direction = d\<rparr> qs) =
               set (displayCustomers fs fe \<lparr>key = k, direction = d\<rparr> ps)"
    by (simp add: set_displayCustomers sets)
  show ?thesis
  proof (cases d)
    case ascending
    let ?R = "\<lambda>a b. js_less (field_value k a) (field_value k b)"
    have "sorted_wrt ?R (displayCustomers fs fe \<lparr>key = k, direction = ascending\<rparr> qs)"
      using sorted_displayCustomers(1)[OF cmpq distq] .
    moreover have "sorted_wrt ?R (displayCustomers fs fe \<lparr>key = k, direction = ascending\<rparr> ps)"
      using sorted_displayCustomers(1)[OF cmp dist] .
    moreover have "\<not> ?R b a"
      if "a \<in> set (displayCustomers fs fe \<lparr>key = k, direction = ascending\<rparr> qs)"
        "b \<in> set (displayCustomers fs fe \<lparr>key = k, direction = ascending\<rparr> qs)" "?R a b" for a b
      using that js_less_asym_on_list[OF cmpq, of a b] by (simp add: set_displayCustomers)
    ultimately show ?thesis
      unfolding ascending using seteq[unfolded ascending] by (intro sorted_wrt_unique)
  next
    case descending
    let ?R = "\<lambda>a b. js_less (field_value k b) (field_value k a)"
    have "sorted_wrt ?R (displayCustomers fs fe \<lparr>key = k, direction = descending\<rparr> qs)"
      using sorted_displayCustomers(2)[OF cmpq distq] .
    moreover have "sorted_wrt ?R (displayCustomers fs fe \<lparr>key = k, direction = descending\<rparr> ps)"
      using sorted_displayCustomers(2)[OF cmp dist] .
    moreover have "\<not> ?R b a"
      if "a \<in> set (displayCustomers fs fe \<lparr>key = k, direction = descending\<rparr> qs)"
        "b \<in> set (displayCustomers fs fe \<lparr>key = k, direction = descending\<rparr> qs)" "?R a b" for a b
      using that js_less_asym_on_list[OF cmpq, of b a] by (auto simp: set_displayCustomers)
    ultimately show ?thesis
      unfolding descending using seteq[unfolded descending] by (intro sorted_wrt_unique)
  qed
qed

text \<open>
  C6, as the code has it. When the values of the sort key are pairwise distinct and each
  is a string or a number other than NaN, a second click on the key, which turns the
  direction from ascending to descending, shows the first ordering reversed; the ascending
  view is strictly increasing in the key, and both views are the same for every order in
  which the records are stored. A click on the current key toggles the direction, and a
  click on another key sorts ascending.
\<close>

theorem sort_toggle_reverses:
  "((\<forall>c \<in> set ps. comparable (field_value k c)) \<and> distinct (map (field_value k) ps) \<longrightarrow>
      displayCustomers fs fe (handleSort k \<lparr>key = k, direction = ascending\<rparr>) ps =
        rev (displayCustomers fs fe \<lparr>key = k, direction = ascending\<rparr> ps) \<and>
      sorted_wrt (\<lambda>a b. js_less (field_value k a) (field_value k b))
        (displayCustomers fs fe \<lparr>key = k, direction = ascending\<rparr> ps) \<and>
      (\<forall>qs d. mset qs = mset ps \<longrightarrow>
         displayCustomers fs fe \<lparr>key = k, direction = d\<rparr> qs =
         displayCustomers fs fe \<lparr>key = k, direction = d\<rparr> ps)) \<and>
   handleSort k \<lparr>key = k, direction = ascending\<rparr> = \<lparr>key = k, direction = descending\<rparr> \<and>
   handleSort k \<lparr>key = k, direction = descending\<rparr> = \<lparr>key = k, direction = ascending\<rparr> \<and>
   (key cfg \<noteq> k \<longrightarrow> handleSort k cfg = \<lparr>key = k, direction = ascending\<rparr>)"
proof (intro conjI impI allI)
  assume h: "(\<forall>c \<in> set ps. comparable (field_value k c)) \<and> distinct (map (field_value k) ps)"
  then have cmp: "\<forall>c \<in> set ps. comparable (field_value k c)"
    and dist: "distinct (map (field_value k) ps)"
    by simp_all
  have "handleSort k \<lparr>key = k, direction = ascending\<rparr> = \<lparr>key = k, direction = descending\<rparr>"
    by (simp add: handleSort_def)
  then show "displayCustomers fs fe (handleSort k \<lparr>key = k, direction = ascending\<rparr>) ps =
        rev (displayCustomers fs fe \<lparr>key = k, direction = ascending\<rparr> ps)"
    using descending_is_reverse[OF cmp dist, of fs fe] by (simp only:)
  show "sorted_wrt (\<lambda>a b. js_less (field_value k a) (field_value k b))
        (displayCustomers fs fe \<lparr>key = k, direction = ascending\<rparr> ps)"
    using sorted_displayCustomers(1)[OF cmp dist] .
  fix qs d
  assume "mset qs = mset ps"
  then show "displayCustomers fs fe \<lparr>key = k, direction = d\<rparr> qs =
         displayCustomers fs fe \<lparr>key = k, direction = d\<rparr> ps"
    by (rule display_permutation[OF cmp dist])
next
  show "handleSort k \<lparr>key = k, direction = ascending\<rparr> = \<lparr>key = k, direction = descending\<rparr>"
    by (simp add: handleSort_def)
  show "handleSort k \<lparr>key = k, direction = descending\<rparr> = \<lparr>key = k, direction = ascending\<rparr>"
    by (simp add: handleSort_def)
next
  assume "key cfg \<noteq> k"
  then show "handleSort k cfg = \<lparr>key = k, direction = ascending\<rparr>"
    by (simp add: handleSort_def)
qed

theorem sort_toggle_reverses_witness:
  "displayCustomers AllStatuses ''All''
      (handleSort ''customerName'' \<lparr>key = ''customerName'', direction = ascending\<rparr>) two_processed
     = rev (displayCustomers AllStatuses ''All''
         \<lparr>key = ''customerName'', direction = ascending\<rparr> two_processed) \<and>
   map customerName (displayCustomers AllStatuses ''All''
      \<lparr>key = ''customerName'', direction = ascending\<rparr> two_processed) = [''Aye'', ''Bo'']"
proof -
  have "(\<forall>c \<in> set two_processed. comparable (field_value ''customerName'' c)) \<and>
        distinct (map (field_value ''customerName'') two_processed)"
    by code_simp
  with sort_toggle_reverses [of two_processed "''customerName''" AllStatuses "''All''"]
  have "displayCustomers AllStatuses ''All''
      (handleSort ''customerName'' \<lparr>key = ''customerName'', direction = ascending\<rparr>) two_processed
     = rev (displayCustomers AllStatuses ''All''
         \<lparr>key = ''customerName'', direction = ascending\<rparr> two_processed)"
    by blast
  moreover have "map customerName (displayCustomers AllStatuses ''All''
      \<lparr>key = ''customerName'', direction = ascending\<rparr> two_processed) = [''Aye'', ''Bo'']"
    by code_simp
  ultimately show ?thesis
    by (rule conjI)
qed

text \<open>
  The claim as worded asks only for pairwise distinct values. With a start date that
  cannot be parsed, the expiry dates of \<open>mixed_customers\<close> are two different time values
  and NaN, pairwise distinct; every comparison with NaN gives 0, and both directions leave
  the list in its stored order, which is not even sorted.
\<close>

theorem sort_invalid_date_counterexample:
  "distinct (map (field_value ''expiryDate'') mixed_processed) \<and>
   map customerName (displayCustomers AllStatuses ''All''
      \<lparr>key = ''expiryDate'', direction = ascending\<rparr> mixed_processed)
     = [''Aye'', ''Hla'', ''Bo''] \<and>
   map customerName (displayCustomers AllStatuses ''All''
      (handleSort ''expiryDate'' \<lparr>key = ''expiryDate'', direction = ascending\<rparr>) mixed_processed)
     = [''Aye'', ''Hla'', ''Bo''] \<and>
   displayCustomers AllStatuses ''All''
      (handleSort ''expiryDate'' \<lparr>key = ''expiryDate'', direction = ascending\<rparr>) mixed_processed
     \<noteq> rev (displayCustomers AllStatuses ''All''
         \<lparr>key = ''expiryDate'', direction = ascending\<rparr> mixed_processed)"
proof -
  have d: "distinct (map (field_value ''expiryDate'') mixed_processed)"
    by code_simp
  have a: "map customerName (displayCustomers AllStatuses ''All''
      \<lparr>key = ''expiryDate'', direction = ascending\<rparr> mixed_processed)
     = [''Aye'', ''Hla'', ''Bo'']"
    by code_simp
  have b: "map customerName (displayCustomers AllStatuses ''All''
      (handleSort ''expiryDate'' \<lparr>key = ''expiryDate'', direction = ascending\<rparr>) mixed_processed)
     = [''Aye'', ''Hla'', ''Bo'']"
    by code_simp
  have "displayCustomers AllStatuses ''All''
      (handleSort ''expiryDate'' \<lparr>key = ''expiryDate'', direction = ascending\<rparr>) mixed_processed
     \<noteq> rev (displayCustomers AllStatuses ''All''
         \<lparr>key = ''expiryDate'', direction = ascending\<rparr> mixed_processed)"
  proof
    assume "displayCustomers AllStatuses ''All''
      (handleSort ''expiryDate'' \<lparr>key = ''expiryDate'', direction = ascending\<rparr>) mixed_processed
     = rev (displayCustomers AllStatuses ''All''
         \<lparr>key = ''expiryDate'', direction = ascending\<rparr> mixed_processed)"
    then have "map customerName (displayCustomers AllStatuses ''All''
      (handleSort ''expiryDate'' \<lparr>key = ''expiryDate'', direction = ascending\<rparr>) mixed_processed)
     = rev (map customerName (displayCustomers AllStatuses ''All''
         \<lparr>key = ''expiryDate'', direction = ascending\<rparr> mixed_processed))"
      by (simp add: rev_map)
    then show False
      unfolding a b by simp
  qed
  with d a b show ?thesis
    by simp
qed

section \<open>Properties of the monthly history\<close>

lemma fold_count_customer:
  "fold (count_customer parse tza y m) cs (a, t) =
     (a + length (filter (active_in_month parse tza y m) cs),
      t + sum_list (map price_of (filter (active_in_month parse tza y m) cs)))"
  by (induction cs arbitrary: a t) (simp_all add: count_customer_def)

lemma history_record_counts:
  assumes "Date_of_fields tza (YearFromTime (LocalTime tza now))
             (MonthFromTime (LocalTime tza now) - i) 1 = Some t"
  shows "activeUsers (history_record parse tza now cs i) =
           length (filter (active_in_month parse tza (YearFromTime (LocalTime tza t))
                     (MonthFromTime (LocalTime tza t))) cs)"
    and "totalIncome (history_record parse tza now cs i) =
           sum_list (map price_of (filter (active_in_month parse tza
                     (YearFromTime (LocalTime tza t)) (MonthFromTime (LocalTime tza t))) cs))"
    and "month (history_record parse tza now cs i) =
           string_of_int (YearFromTime (LocalTime tza t)) @ ''-'' @
           padStart2 (string_of_int (MonthFromTime (LocalTime tza t) + 1))"
  using assms
  by (simp_all add: history_record_def getFullYear_def getMonth_def Let_def fold_count_customer)

text \<open>
  The first day of the month \<open>i\<close> months before month \<open>m\<close> of year \<open>y\<close>, at local
  midnight.
\<close>

lemma Date_of_fields_months_before:
  assumes f: "date_fields la = shift_months (full_year y, m, 1) (- i)"
    and w: "TimeWithinDay la = 0"
  shows "Date_of_fields tza y (m - i) 1 = TimeClip (UTC tza la)"
proof -
  define la' where "la' = MakeDate (MakeDay (full_year y) (m + - i) 1) 0"
  have z: "(0::int) \<le> 0" "0 < msPerDay"
    using msPerDay_pos by simp_all
  have day: "Day la' = MakeDay (full_year y) (m + - i) 1"
    unfolding la'_def using z by (rule Day_MakeDate)
  have o: "(1::int) \<le> 1" "(1::int) \<le> 31"
    by simp_all
  have "date_fields la' = shift_months (full_year y, m, 1) (- i)"
    using o day by (rule fields_of_shifted_day)
  then have "date_fields la = date_fields la'"
    unfolding f by (rule sym)
  moreover have "TimeWithinDay la' = 0"
    unfolding la'_def using z by (rule Day_MakeDate)
  then have "TimeWithinDay la = TimeWithinDay la'"
    unfolding w by (rule sym)
  ultimately have "la = la'"
    by (rule time_value_unique)
  then show ?thesis
    by (simp add: Date_of_fields_def la'_def)
qed

lemma active_in_month_iff:
  "active_in_month parse tza y m c \<longleftrightarrow>
     (\<exists>s e a b. parse (startDate c) = Some s \<and>
        expiry_of parse tza (startDate c) (monthsPaid c) = Some e \<and>
        Date_of_fields tza y m 1 = Some a \<and> Date_of_fields tza y (m + 1) 0 = Some b \<and>
        s \<le> b \<and> a < e)"
  by (auto simp: active_in_month_def date_le_def date_gt_def Let_def split: option.splits)

text \<open>
  The test of the inner loop, in terms of the instants that it compares: the start, the
  expiry date, and the local midnights that start the first and the last day of the month.
\<close>

lemma active_in_month_instants:
  assumes m: "0 \<le> mon" "mon \<le> 11"
  shows "active_in_month parse tza year mon c \<longleftrightarrow>
     (\<exists>s new la lb. parse (startDate c) = Some s \<and>
        date_fields new = shift_months (date_fields (LocalTime tza s)) (monthsPaid c) \<and>
        TimeWithinDay new = TimeWithinDay (LocalTime tza s) \<and>
        date_fields la = (full_year year, mon, 1) \<and> TimeWithinDay la = 0 \<and>
        date_fields lb = (full_year year, mon, DaysInMonth (full_year year) mon) \<and>
        TimeWithinDay lb = 0 \<and>
        \<bar>UTC tza new\<bar> \<le> 8640000000000000 \<and> \<bar>UTC tza la\<bar> \<le> 8640000000000000 \<and>
        \<bar>UTC tza lb\<bar> \<le> 8640000000000000 \<and>
        s \<le> UTC tza lb \<and> UTC tza la < UTC tza new)"
  (is "?active \<longleftrightarrow> ?instants")
proof
  assume ?active
  then obtain s e a b where p: "parse (startDate c) = Some s"
    and e: "expiry_of parse tza (startDate c) (monthsPaid c) = Some e"
    and a: "Date_of_fields tza year mon 1 = Some a"
    and b: "Date_of_fields tza year (mon + 1) 0 = Some b"
    and c: "s \<le> b" "a < e"
    unfolding active_in_month_iff by blast
  obtain new where f: "date_fields new =
      shift_months (date_fields (LocalTime tza s)) (monthsPaid c)"
    and w: "TimeWithinDay new = TimeWithinDay (LocalTime tza s)"
    using shifted_local_time_exists[of "LocalTime tza s" "monthsPaid c"] by blast
  obtain la lb where la: "date_fields la = (full_year year, mon, 1)" "TimeWithinDay la = 0"
    and lb: "date_fields lb = (full_year year, mon, DaysInMonth (full_year year) mon)"
      "TimeWithinDay lb = 0"
    using month_midnights_exist[OF m, of "full_year year"] by blast
  have "expiry_of parse tza (startDate c) (monthsPaid c) = TimeClip (UTC tza new)"
    using p f w by (rule expiry_of_shifted[where parse = parse])
  then have e': "e = UTC tza new \<and> \<bar>UTC tza new\<bar> \<le> 8640000000000000"
    unfolding e by (simp add: TimeClip_Some eq_commute[of "Some e"])
  have "Date_of_fields tza year mon 1 = TimeClip (UTC tza la)"
    using la by (rule Date_of_fields_first)
  then have a': "a = UTC tza la \<and> \<bar>UTC tza la\<bar> \<le> 8640000000000000"
    unfolding a by (simp add: TimeClip_Some eq_commute[of "Some a"])
  have "Date_of_fields tza year (mon + 1) 0 = TimeClip (UTC tza lb)"
    using m lb by (rule Date_of_fields_last)
  then have b': "b = UTC tza lb \<and> \<bar>UTC tza lb\<bar> \<le> 8640000000000000"
    unfolding b by (simp add: TimeClip_Some eq_commute[of "Some b"])
  show ?instants
    using p f w la lb e' a' b' c by blast
next
  assume ?instants
  then obtain s new la lb where p: "parse (startDate c) = Some s"
    and f: "date_fields new = shift_months (date_fields (LocalTime tza s)) (monthsPaid c)"
    and w: "TimeWithinDay new = TimeWithinDay (LocalTime tza s)"
    and la: "date_fields la = (full_year year, mon, 1)" "TimeWithinDay la = 0"
    and lb: "date_fields lb = (full_year year, mon, DaysInMonth (full_year year) mon)"
      "TimeWithinDay lb = 0"
    and r: "\<bar>UTC tza new\<bar> \<le> 8640000000000000" "\<bar>UTC tza la\<bar> \<le> 8640000000000000"
      "\<bar>UTC tza lb\<bar> \<le> 8640000000000000"
    and c: "s \<le> UTC tza lb" "UTC tza la < UTC tza new"
    by blast
  have "expiry_of parse tza (startDate c) (monthsPaid c) = TimeClip (UTC tza new)"
    using p f w by (rule expiry_of_shifted[where parse = parse])
  then have e: "expiry_of parse tza (startDate c) (monthsPaid c) = Some (UTC tza new)"
    using r(1) by (simp add: TimeClip_def)
  have "Date_of_fields tza year mon 1 = TimeClip (UTC tza la)"
    using la by (rule Date_of_fields_first)
  then have a: "Date_of_fields tza year mon 1 = Some (UTC tza la)"
    using r(2) by (simp add: TimeClip_def)
  have "Date_of_fields tza year (mon + 1) 0 = TimeClip (UTC tza lb)"
    using m lb by (rule Date_of_fields_last)
  then have b: "Date_of_fields tza year (mon + 1) 0 = Some (UTC tza lb)"
    using r(3) by (simp add: TimeClip_def)
  show ?active
    unfolding active_in_month_iff using p e a b c by blast
qed

text \<open>
  The subscription of two months from midnight UTC of 15 January 2024 ends sixty days
  later, moved by the difference of the offsets of the zone at the two ends.
\<close>

lemma expiry_jan15:
  assumes p: "parse s = Some 1705276800000"
    and k: "- msPerDay < tza 1705276800000 True" "tza 1705276800000 True < msPerDay"
  shows "expiry_of parse tza s 2 =
           TimeClip (UTC tza (1710460800000 + tza 1705276800000 True))"
proof -
  define k where "k = tza 1705276800000 True"
  define lt where "lt = LocalTime tza 1705276800000"
  have e: "expiry_of parse tza s 2 =
             TimeClip (UTC tza (MakeDate (MakeDay (YearFromTime lt) (MonthFromTime lt + 2)
               (DateFromTime lt)) (TimeWithinDay lt)))"
    unfolding lt_def using p by (rule expiry_of_valid[where parse = parse])
  have k': "- msPerDay < k" "k < msPerDay"
    using k by (simp_all add: k_def)
  show ?thesis
  proof (cases "0 \<le> k")
    case True
    have lt: "lt = MakeDate 19737 k"
      by (simp add: lt_def LocalTime_def MakeDate_def msPerDay_def k_def)
    have day: "Day lt = 19737" and tw: "TimeWithinDay lt = k"
      unfolding lt using True k'(2) by (rule Day_MakeDate)+
    have "MakeDay 2024 0 15 = 19737"
      by code_simp
    then have "YearFromTime lt = 2024 \<and> MonthFromTime lt = 0 \<and> DateFromTime lt = 15"
      using day by (intro fields_of_MakeDay) (simp_all add: DaysInMonth_def)
    moreover have "MakeDay 2024 (0 + 2) 15 = 19797"
      by code_simp
    ultimately show ?thesis
      unfolding e tw k_def[symmetric] by (simp add: MakeDate_def msPerDay_def)
  next
    case False
    have lt: "lt = MakeDate 19736 (k + msPerDay)"
      by (simp add: lt_def LocalTime_def MakeDate_def msPerDay_def k_def)
    have r: "0 \<le> k + msPerDay" "k + msPerDay < msPerDay"
      using False k'(1) by simp_all
    have day: "Day lt = 19736" and tw: "TimeWithinDay lt = k + msPerDay"
      unfolding lt using r by (rule Day_MakeDate)+
    have "MakeDay 2024 0 14 = 19736"
      by code_simp
    then have "YearFromTime lt = 2024 \<and> MonthFromTime lt = 0 \<and> DateFromTime lt = 14"
      using day by (intro fields_of_MakeDay) (simp_all add: DaysInMonth_def)
    moreover have "MakeDay 2024 (0 + 2) 14 = 19796"
      by code_simp
    ultimately show ?thesis
      unfolding e tw k_def[symmetric] by (simp add: MakeDate_def msPerDay_def)
  qed
qed

lemma month_bounds_2024:
  "MakeDay 2024 0 1 = 19723" "MakeDay 2024 1 0 = 19753" "MakeDay 2024 1 1 = 19754"
  "MakeDay 2024 2 0 = 19782" "MakeDay 2024 2 1 = 19783" "MakeDay 2024 3 0 = 19813"
  "MakeDay 2024 3 1 = 19814" "MakeDay 2024 4 0 = 19843"
  by code_simp+

lemma Date_of_fields_2024:
  assumes "- 43200000 \<le> tza (MakeDate (MakeDay 2024 m d) 0) False"
    "tza (MakeDate (MakeDay 2024 m d) 0) False \<le> 50400000" "MakeDay 2024 m d = n"
    "19000 \<le> n" "n \<le> 20000"
  shows "\<exists>a. Date_of_fields tza 2024 m d = Some a \<and>
           n * 86400000 - 50400000 \<le> a \<and> a \<le> n * 86400000 + 43200000"
  using assms
  by (simp add: Date_of_fields_def full_year_def UTC_def TimeClip_def MakeDate_def msPerDay_def)

lemma jan15_active_months:
  assumes z: "\<forall>t b. - 43200000 \<le> tza t b \<and> tza t b \<le> 50400000"
    and p: "parse (startDate c) = Some 1705276800000" and n: "monthsPaid c = 2"
  shows "expiry_of parse tza (startDate c) (monthsPaid c) =
           Some (1710460800000 + tza 1705276800000 True
                 - tza (1710460800000 + tza 1705276800000 True) False)"
    and "active_in_month parse tza 2024 0 c" and "active_in_month parse tza 2024 1 c"
    and "active_in_month parse tza 2024 2 c" and "\<not> active_in_month parse tza 2024 3 c"
proof -
  define k where "k = tza 1705276800000 True"
  define j where "j = tza (1710460800000 + k) False"
  define e where "e = 1710460800000 + k - j"
  have k: "- 43200000 \<le> k" "k \<le> 50400000" and j: "- 43200000 \<le> j" "j \<le> 50400000"
    using z by (simp_all add: k_def j_def)
  have "expiry_of parse tza (startDate c) 2 = TimeClip (UTC tza (1710460800000 + k))"
    unfolding k_def using p
    by (rule expiry_jan15[where parse = parse]) (use k in \<open>simp_all add: k_def msPerDay_def\<close>)
  then have ex: "expiry_of parse tza (startDate c) (monthsPaid c) = Some e"
    unfolding n using k j by (simp add: UTC_def j_def[symmetric] e_def TimeClip_def)
  show "expiry_of parse tza (startDate c) (monthsPaid c) =
           Some (1710460800000 + tza 1705276800000 True
                 - tza (1710460800000 + tza 1705276800000 True) False)"
    using ex by (simp add: e_def j_def k_def)
  have eb: "1710367200000 \<le> e" "e \<le> 1710554400000"
    using k j by (simp_all add: e_def)
  have d: "\<exists>a. Date_of_fields tza 2024 m d = Some a \<and>
           n * 86400000 - 50400000 \<le> a \<and> a \<le> n * 86400000 + 43200000"
    if "MakeDay 2024 m d = n" "19000 \<le> n" "n \<le> 20000" for m d n
    using z that by (intro Date_of_fields_2024) simp_all
  obtain a0 b0 where jan: "Date_of_fields tza 2024 0 1 = Some a0" "a0 \<le> 1704110400000"
      "Date_of_fields tza 2024 (0 + 1) 0 = Some b0" "1706608800000 \<le> b0"
    using d[OF month_bounds_2024(1)] d[OF month_bounds_2024(2)] by auto
  obtain a1 b1 where feb: "Date_of_fields tza 2024 1 1 = Some a1" "a1 \<le> 1706788800000"
      "Date_of_fields tza 2024 (1 + 1) 0 = Some b1" "1709114400000 \<le> b1"
    using d[OF month_bounds_2024(3)] d[OF month_bounds_2024(4)] by auto
  obtain a2 b2 where mar: "Date_of_fields tza 2024 2 1 = Some a2" "a2 \<le> 1709294400000"
      "Date_of_fields tza 2024 (2 + 1) 0 = Some b2" "1711792800000 \<le> b2"
    using d[OF month_bounds_2024(5)] d[OF month_bounds_2024(6)] by auto
  obtain a3 b3 where apr: "Date_of_fields tza 2024 3 1 = Some a3" "1711879200000 \<le> a3"
      "Date_of_fields tza 2024 (3 + 1) 0 = Some b3"
    using d[OF month_bounds_2024(7)] d[OF month_bounds_2024(8)] by auto
  show "active_in_month parse tza 2024 0 c"
    unfolding active_in_month_def p ex jan Let_def using jan(2,4) eb
    by (simp add: date_le_def date_gt_def)
  show "active_in_month parse tza 2024 1 c"
    unfolding active_in_month_def p ex feb Let_def using feb(2,4) eb
    by (simp add: date_le_def date_gt_def)
  show "active_in_month parse tza 2024 2 c"
    unfolding active_in_month_def p ex mar Let_def using mar(2,4) eb
    by (simp add: date_le_def date_gt_def)
  show "\<not> active_in_month parse tza 2024 3 c"
    unfolding active_in_month_def p ex apr Let_def using apr(2) eb
    by (simp add: date_le_def date_gt_def)
qed

text \<open>
  C3, as the code has it. A customer is counted in a month exactly when two comparisons
  of instants hold and every date in them is valid: the start, which is the time value
  that the runtime parses from \<^verbatim>\<open>startDate\<close>, is at or before the local midnight that
  starts the last day of the month, and the expiry date, which is the local time of the
  start shifted by \<^verbatim>\<open>monthsPaid\<close> months and converted from local time, is after the local
  midnight that starts the first day of the month. The record of the month \<open>i\<close> months
  before the current one counts the customers that pass this test for its month, and sums
  their prices.

  The customer who starts on 2024-01-15, read as midnight UTC of that day, with two months
  paid expires sixty days later, give or take the change of the offset of the zone between
  the two ends. That is after 1 March: in every time zone whose offsets are between UTC-12
  and UTC+14, the customer is counted in January, February and March 2024 and not in
  April.
\<close>

theorem history_counts_overlapping_months:
  "(0 \<le> mon \<and> mon \<le> 11 \<longrightarrow>
      (active_in_month parse tza year mon c \<longleftrightarrow>
         (\<exists>s new la lb. parse (startDate c) = Some s \<and>
            date_fields new = shift_months (date_fields (LocalTime tza s)) (monthsPaid c) \<and>
            TimeWithinDay new = TimeWithinDay (LocalTime tza s) \<and>
            date_fields la = (full_year year, mon, 1) \<and> TimeWithinDay la = 0 \<and>
            date_fields lb = (full_year year, mon, DaysInMonth (full_year year) mon) \<and>
            TimeWithinDay lb = 0 \<and>
            \<bar>UTC tza new\<bar> \<le> 8640000000000000 \<and> \<bar>UTC tza la\<bar> \<le> 8640000000000000 \<and>
            \<bar>UTC tza lb\<bar> \<le> 8640000000000000 \<and>
            s \<le> UTC tza lb \<and> UTC tza la < UTC tza new))) \<and>
   (\<forall>la t. date_fields la =
        shift_months (full_year (YearFromTime (LocalTime tza now)),
                      MonthFromTime (LocalTime tza now), 1) (- i) \<and>
      TimeWithinDay la = 0 \<and> t = UTC tza la \<and> \<bar>t\<bar> \<le> 8640000000000000 \<longrightarrow>
      month (history_record parse tza now cs i) =
        string_of_int (YearFromTime (LocalTime tza t)) @ ''-'' @
        padStart2 (string_of_int (MonthFromTime (LocalTime tza t) + 1)) \<and>
      activeUsers (history_record parse tza now cs i) =
        length (filter (active_in_month parse tza (YearFromTime (LocalTime tza t))
                  (MonthFromTime (LocalTime tza t))) cs) \<and>
      totalIncome (history_record parse tza now cs i) =
        sum_list (map price_of (filter (active_in_month parse tza
                  (YearFromTime (LocalTime tza t)) (MonthFromTime (LocalTime tza t))) cs)) \<and>
      0 \<le> MonthFromTime (LocalTime tza t) \<and> MonthFromTime (LocalTime tza t) \<le> 11) \<and>
   ((\<forall>t b. - 43200000 \<le> tza t b \<and> tza t b \<le> 50400000) \<and>
      startDate c = ''2024-01-15'' \<and> parse ''2024-01-15'' = Some 1705276800000 \<and>
      monthsPaid c = 2 \<longrightarrow>
      expiry_of parse tza (startDate c) (monthsPaid c) =
        Some (1710460800000 + tza 1705276800000 True
              - tza (1710460800000 + tza 1705276800000 True) False) \<and>
      active_in_month parse tza 2024 0 c \<and> active_in_month parse tza 2024 1 c \<and>
      active_in_month parse tza 2024 2 c \<and> \<not> active_in_month parse tza 2024 3 c)"
  (is "?test \<and> ?records \<and> ?example")
proof (intro conjI)
  show ?test
    using active_in_month_instants[where parse = parse and tza = tza and year = year
        and mon = mon and c = c]
    by blast
next
  show ?records
  proof (intro allI impI)
    fix la t
    assume a: "date_fields la =
        shift_months (full_year (YearFromTime (LocalTime tza now)),
                      MonthFromTime (LocalTime tza now), 1) (- i) \<and>
      TimeWithinDay la = 0 \<and> t = UTC tza la \<and> \<bar>t\<bar> \<le> 8640000000000000"
    then have f: "date_fields la =
        shift_months (full_year (YearFromTime (LocalTime tza now)),
                      MonthFromTime (LocalTime tza now), 1) (- i)"
      and w: "TimeWithinDay la = 0" and t: "t = UTC tza la" "\<bar>t\<bar> \<le> 8640000000000000"
      by blast+
    have "Date_of_fields tza (YearFromTime (LocalTime tza now))
             (MonthFromTime (LocalTime tza now) - i) 1 = TimeClip (UTC tza la)"
      using f w by (rule Date_of_fields_months_before)
    then have d: "Date_of_fields tza (YearFromTime (LocalTime tza now))
             (MonthFromTime (LocalTime tza now) - i) 1 = Some t"
      using t by (simp add: TimeClip_def)
    show "month (history_record parse tza now cs i) =
        string_of_int (YearFromTime (LocalTime tza t)) @ ''-'' @
        padStart2 (string_of_int (MonthFromTime (LocalTime tza t) + 1)) \<and>
      activeUsers (history_record parse tza now cs i) =
        length (filter (active_in_month parse tza (YearFromTime (LocalTime tza t))
                  (MonthFromTime (LocalTime tza t))) cs) \<and>
      totalIncome (history_record parse tza now cs i) =
        sum_list (map price_of (filter (active_in_month parse tza
                  (YearFromTime (LocalTime tza t)) (MonthFromTime (LocalTime tza t))) cs)) \<and>
      0 \<le> MonthFromTime (LocalTime tza t) \<and> MonthFromTime (LocalTime tza t) \<le> 11"
      using history_record_counts[where parse = parse, OF d, of cs]
        MonthFromTime_range[of "LocalTime tza t"]
      by blast
  qed
next
  show ?example
  proof
    assume h: "(\<forall>t b. - 43200000 \<le> tza t b \<and> tza t b \<le> 50400000) \<and>
      startDate c = ''2024-01-15'' \<and> parse ''2024-01-15'' = Some 1705276800000 \<and>
      monthsPaid c = 2"
    then have z: "\<forall>t b. - 43200000 \<le> tza t b \<and> tza t b \<le> 50400000"
      and p: "parse (startDate c) = Some 1705276800000" and n: "monthsPaid c = 2"
      by simp_all
    show "expiry_of parse tza (startDate c) (monthsPaid c) =
        Some (1710460800000 + tza 1705276800000 True
              - tza (1710460800000 + tza 1705276800000 True) False) \<and>
      active_in_month parse tza 2024 0 c \<and> active_in_month parse tza 2024 1 c \<and>
      active_in_month parse tza 2024 2 c \<and> \<not> active_in_month parse tza 2024 3 c"
      by (intro conjI jan15_active_months[where parse = parse, OF z p n])
  qed
qed

theorem history_counts_overlapping_months_witness:
  "active_in_month parse_date_only new_york_2024 2024 0 example_customer \<and>
   active_in_month parse_date_only new_york_2024 2024 1 example_customer \<and>
   active_in_month parse_date_only new_york_2024 2024 2 example_customer \<and>
   \<not> active_in_month parse_date_only new_york_2024 2024 3 example_customer \<and>
   expiry_of parse_date_only new_york_2024 ''2024-01-15'' 2 = Some 1710457200000 \<and>
   month (history_record parse_date_only new_york_2024 june_now [example_customer] 3)
     = ''2024-03'' \<and>
   activeUsers (history_record parse_date_only new_york_2024 june_now [example_customer] 3)
     = 1 \<and>
   map month (historyData parse_date_only utc_zone june_now [example_customer]) =
     [''2023-07'', ''2023-08'', ''2023-09'', ''2023-10'', ''2023-11'', ''2023-12'',
      ''2024-01'', ''2024-02'', ''2024-03'', ''2024-04'', ''2024-05'', ''2024-06''] \<and>
   map activeUsers (historyData parse_date_only utc_zone june_now [example_customer]) =
     [0, 0, 0, 0, 0, 0, 1, 1, 1, 0, 0, 0]"
proof -
  note th = history_counts_overlapping_months [where parse = parse_date_only
      and tza = new_york_2024 and c = example_customer and now = june_now
      and cs = "[example_customer]" and i = 3]
  have z: "\<forall>t b. - 43200000 \<le> new_york_2024 t b \<and> new_york_2024 t b \<le> 50400000"
    by (simp add: new_york_2024_def)
  have c: "startDate example_customer = ''2024-01-15''" "monthsPaid example_customer = 2"
    by (simp_all add: example_customer_def)
  have p: "parse_date_only ''2024-01-15'' = Some 1705276800000"
    by code_simp
  from th z c p
  have a: "expiry_of parse_date_only new_york_2024 (startDate example_customer)
             (monthsPaid example_customer) =
        Some (1710460800000 + new_york_2024 1705276800000 True
              - new_york_2024 (1710460800000 + new_york_2024 1705276800000 True) False) \<and>
      active_in_month parse_date_only new_york_2024 2024 0 example_customer \<and>
      active_in_month parse_date_only new_york_2024 2024 1 example_customer \<and>
      active_in_month parse_date_only new_york_2024 2024 2 example_customer \<and>
      \<not> active_in_month parse_date_only new_york_2024 2024 3 example_customer"
    by blast
  have o: "1710460800000 + new_york_2024 1705276800000 True
              - new_york_2024 (1710460800000 + new_york_2024 1705276800000 True) False
           = 1710457200000"
    by (simp add: new_york_2024_def)
  have la: "date_fields 1709251200000 =
        shift_months (full_year (YearFromTime (LocalTime new_york_2024 june_now)),
                      MonthFromTime (LocalTime new_york_2024 june_now), 1) (- 3)"
    "TimeWithinDay 1709251200000 = 0"
    "1709269200000 = UTC new_york_2024 1709251200000"
    "\<bar>1709269200000 :: int\<bar> \<le> 8640000000000000"
    by code_simp+
  have ym: "YearFromTime (LocalTime new_york_2024 1709269200000) = 2024"
    "MonthFromTime (LocalTime new_york_2024 1709269200000) = 2"
    by code_simp+
  from th la
  have "month (history_record parse_date_only new_york_2024 june_now [example_customer] 3) =
        string_of_int (YearFromTime (LocalTime new_york_2024 1709269200000)) @ ''-'' @
        padStart2 (string_of_int (MonthFromTime (LocalTime new_york_2024 1709269200000) + 1)) \<and>
      activeUsers (history_record parse_date_only new_york_2024 june_now [example_customer] 3) =
        length (filter (active_in_month parse_date_only new_york_2024
                  (YearFromTime (LocalTime new_york_2024 1709269200000))
                  (MonthFromTime (LocalTime new_york_2024 1709269200000))) [example_customer])"
    by blast
  then have r: "month (history_record parse_date_only new_york_2024 june_now
                  [example_customer] 3) =
        string_of_int 2024 @ ''-'' @ padStart2 (string_of_int (2 + 1)) \<and>
      activeUsers (history_record parse_date_only new_york_2024 june_now [example_customer] 3) =
        length (filter (active_in_month parse_date_only new_york_2024 2024 2)
                  [example_customer])"
    unfolding ym .
  have s: "string_of_int 2024 @ ''-'' @ padStart2 (string_of_int (2 + 1)) = ''2024-03''"
    by code_simp
  have h1: "map month (historyData parse_date_only utc_zone june_now [example_customer]) =
     [''2023-07'', ''2023-08'', ''2023-09'', ''2023-10'', ''2023-11'', ''2023-12'',
      ''2024-01'', ''2024-02'', ''2024-03'', ''2024-04'', ''2024-05'', ''2024-06'']"
    by code_simp
  have h2: "map activeUsers (historyData parse_date_only utc_zone june_now [example_customer]) =
     [0, 0, 0, 0, 0, 0, 1, 1, 1, 0, 0, 0]"
    by code_simp
  show ?thesis
    using a r h1 h2 unfolding o s c by simp
qed

text \<open>
  The claim as worded has the customer left out of the March record. The ninth record of
  the history that ends in June 2024 is March 2024, and it counts the customer.

  The test does not compare calendar dates either. A customer whose start date is
  2024-01-31, the last day of January, starts at midnight UTC of that day; six and a half
  hours ahead of UTC, the last day of January starts at 17:30 UTC of 30 January, before
  the customer does, and the customer is not counted in January.
\<close>

theorem history_march_counterexample:
  "month (historyData parse_date_only utc_zone june_now [example_customer] ! 8) = ''2024-03'' \<and>
   activeUsers (historyData parse_date_only utc_zone june_now [example_customer] ! 8) = 1 \<and>
   active_in_month parse_date_only utc_zone 2024 2 example_customer \<and>
   written_date (startDate jan31_customer) = Some (2024, 1, 31) \<and>
   DaysInMonth 2024 0 = 31 \<and>
   \<not> active_in_month parse_date_only (fixed_zone 23400000) 2024 0 jan31_customer \<and>
   active_in_month parse_date_only utc_zone 2024 0 jan31_customer"
  by code_simp

section \<open>Properties of the persisted state\<close>

lemma map_of_set_property:
  "map_of (set_property k v kvs) k' = (if k' = k then Some v else map_of kvs k')"
  by (induction kvs) auto

lemma map_of_delete_property:
  "map_of (delete_property k kvs) k' = (if k' = k then None else map_of kvs k')"
  by (induction kvs) (auto simp: delete_property_def)

lemma set_property_same: "map_of kvs k = Some v \<Longrightarrow> set_property k v kvs = kvs"
  by (induction kvs) (auto split: if_splits)

lemma delete_property_absent: "map_of kvs k = None \<Longrightarrow> delete_property k kvs = kvs"
  by (induction kvs) (auto simp: delete_property_def split: if_splits)

lemma or_else_cases: "truthy (Some (or_else v d)) \<or> or_else v d = d"
  by (cases v) (auto simp: or_else_def js_or_def)

lemma or_else_again: "or_else (Some (or_else v d)) d = or_else v d"
  using or_else_cases[of v d] by (auto simp: or_else_def js_or_def)

lemma or_else_note_again:
  "or_else (js_or (Some (or_else v (JStr []))) None) (JStr []) = or_else v (JStr [])"
  using or_else_cases[of v "JStr []"] by (auto simp: or_else_def js_or_def truthy_def)

text \<open>Migrating a migrated record changes nothing.\<close>

lemma migrate_object_idem: "migrate_object (migrate_object c) = migrate_object c"
proof -
  define p where "p = or_else (map_of c ''profileName'') (JStr [])"
  define n where "n = or_else (js_or (map_of c ''note'') (map_of c ''contact'')) (JStr [])"
  define a where "a = or_else (map_of c ''accountType'') (JStr ''Share'')"
  define c' where "c' = migrate_object c"
  have c': "c' = delete_property ''contact''
                  (set_property ''accountType'' a
                     (set_property ''note'' n (set_property ''profileName'' p c)))"
    by (simp add: c'_def migrate_object_def new_customer_def p_def n_def a_def)
  have gp: "map_of c' ''profileName'' = Some p"
    and gn: "map_of c' ''note'' = Some n"
    and gc: "map_of c' ''contact'' = None"
    and ga: "map_of c' ''accountType'' = Some a"
    by (simp_all add: c' map_of_delete_property map_of_set_property)
  have p': "or_else (Some p) (JStr []) = p"
    unfolding p_def by (rule or_else_again)
  have n': "or_else (js_or (Some n) None) (JStr []) = n"
    unfolding n_def by (rule or_else_note_again)
  have a': "or_else (Some a) (JStr ''Share'') = a"
    unfolding a_def by (rule or_else_again)
  have "migrate_object c' =
          delete_property ''contact''
            (set_property ''accountType'' a
               (set_property ''note'' n (set_property ''profileName'' p c')))"
    by (simp add: migrate_object_def new_customer_def gp gn gc ga p' n' a')
  also have "\<dots> = c'"
    by (simp add: set_property_same delete_property_absent gp gn gc ga)
  finally show ?thesis
    by (simp add: c'_def)
qed

text \<open>A record with all the fields of a \<^verbatim>\<open>Customer\<close> is left as it is.\<close>

lemma accountType_string_nonempty: "accountType_string a \<noteq> []"
  by (cases a) simp_all

lemma migrate_customer_object: "migrate_object (customer_object c) = customer_object c"
proof -
  have s: "or_else (Some (JStr x)) (JStr []) = JStr x" for x
    by (simp add: or_else_def js_or_def truthy_def)
  have n: "or_else (js_or (Some (JStr x)) None) (JStr []) = JStr x" for x
    by (simp add: or_else_def js_or_def truthy_def)
  have a: "or_else (Some (JStr (accountType_string t))) (JStr ''Share'') = JStr (accountType_string t)"
    for t
    by (simp add: or_else_def js_or_def truthy_def accountType_string_nonempty)
  show ?thesis
    by (simp add: migrate_object_def new_customer_def customer_object_def s n a
        delete_property_def)
qed

text \<open>
  So is every object that has the three defaulted properties as strings, with an account
  type that is not empty, and no \<^verbatim>\<open>contact\<close>, whatever the order of its keys: the
  migration reads and writes properties by name.
\<close>

lemma migrate_object_fixed:
  assumes p: "map_of c ''profileName'' = Some (JStr p)"
    and n: "map_of c ''note'' = Some (JStr n)"
    and a: "map_of c ''accountType'' = Some (JStr a)" "a \<noteq> []"
    and ct: "map_of c ''contact'' = None"
  shows "migrate_object c = c"
proof -
  have p': "or_else (Some (JStr p)) (JStr []) = JStr p"
    by (simp add: or_else_def js_or_def truthy_def)
  have n': "or_else (js_or (Some (JStr n)) None) (JStr []) = JStr n"
    by (simp add: or_else_def js_or_def truthy_def)
  have a': "or_else (Some (JStr a)) (JStr ''Share'') = JStr a"
    using a(2) by (simp add: or_else_def js_or_def truthy_def)
  have "migrate_object c =
          delete_property ''contact''
            (set_property ''accountType'' (JStr a)
               (set_property ''note'' (JStr n) (set_property ''profileName'' (JStr p) c)))"
    by (simp add: migrate_object_def new_customer_def p n a(1) ct p' n' a')
  also have "\<dots> = c"
    by (simp add: set_property_same delete_property_absent p n a(1) ct)
  finally show ?thesis .
qed

lemma migrate_JObj: "migrate (JObj c) = Inr (migrate_object c)"
  by (simp add: migrate_def migrate_object_def get_property_def spread_def)

lemma map_result_migrate_objects:
  "map_result migrate (map JObj os) = Inr (map migrate_object os)"
  by (induction os) (simp_all add: migrate_JObj)

lemma init_customers_roundtrip:
  assumes "parse (stringify (JArr (map JObj os))) = Some (JArr (map JObj os))"
    and "stringify (JArr (map JObj os)) \<noteq> []"
  shows "init_customers parse (persist_customers stringify os storage) = (map migrate_object os, [])"
  using assms
  by (simp add: init_customers_def load_customers_def persist_customers_def
      map_result_migrate_objects)

lemma init_emails_roundtrip:
  assumes "parse (stringify (JArr (map JStr es))) = Some (JArr (map JStr es))"
    and "stringify (JArr (map JStr es)) \<noteq> []"
  shows "init_emails parse (persist_emails stringify es storage) = (JArr (map JStr es), [])"
  using assms
  by (simp add: init_emails_def load_emails_def persist_emails_def)

text \<open>
  C7. Whenever \<^verbatim>\<open>JSON.parse\<close> gives back the value that \<^verbatim>\<open>JSON.stringify\<close> wrote (and
  the text written is not empty), loading after saving gives the migrated records and the
  saved emails, with nothing logged. The migration is idempotent, and it leaves a record
  with all the fields of a \<^verbatim>\<open>Customer\<close> as it is, so a saved customer list is loaded back
  unchanged.
\<close>

theorem save_load_roundtrip:
  "(parse (stringify (JArr (map JObj os))) = Some (JArr (map JObj os)) \<and>
    stringify (JArr (map JObj os)) \<noteq> [] \<longrightarrow>
      init_customers parse (persist_customers stringify os storage) = (map migrate_object os, [])) \<and>
   (parse (stringify (JArr (map JObj (map customer_object cs)))) =
      Some (JArr (map JObj (map customer_object cs))) \<and>
    stringify (JArr (map JObj (map customer_object cs))) \<noteq> [] \<longrightarrow>
      init_customers parse (persist_customers stringify (map customer_object cs) storage) =
        (map customer_object cs, [])) \<and>
   (parse (stringify (JArr (map JStr es))) = Some (JArr (map JStr es)) \<and>
    stringify (JArr (map JStr es)) \<noteq> [] \<longrightarrow>
      init_emails parse (persist_emails stringify es storage) = (JArr (map JStr es), [])) \<and>
   migrate_object (migrate_object c) = migrate_object c \<and>
   migrate_object (customer_object k) = customer_object k"
proof (intro conjI impI)
  assume "parse (stringify (JArr (map JObj os))) = Some (JArr (map JObj os)) \<and>
    stringify (JArr (map JObj os)) \<noteq> []"
  then show "init_customers parse (persist_customers stringify os storage) =
               (map migrate_object os, [])"
    by (intro init_customers_roundtrip) simp_all
next
  assume "parse (stringify (JArr (map JObj (map customer_object cs)))) =
      Some (JArr (map JObj (map customer_object cs))) \<and>
    stringify (JArr (map JObj (map customer_object cs))) \<noteq> []"
  then have "init_customers parse (persist_customers stringify (map customer_object cs) storage) =
               (map migrate_object (map customer_object cs), [])"
    by (intro init_customers_roundtrip) simp_all
  moreover have "map migrate_object (map customer_object cs) = map customer_object cs"
    by (induction cs) (simp_all add: migrate_customer_object)
  ultimately show "init_customers parse
      (persist_customers stringify (map customer_object cs) storage) = (map customer_object cs, [])"
    by simp
next
  assume "parse (stringify (JArr (map JStr es))) = Some (JArr (map JStr es)) \<and>
    stringify (JArr (map JStr es)) \<noteq> []"
  then show "init_emails parse (persist_emails stringify es storage) = (JArr (map JStr es), [])"
    by (intro init_emails_roundtrip) simp_all
next
  show "migrate_object (migrate_object c) = migrate_object c"
    by (rule migrate_object_idem)
  show "migrate_object (customer_object k) = customer_object k"
    by (rule migrate_customer_object)
qed

theorem save_load_roundtrip_witness:
  "init_customers one_text_parse
     (persist_customers one_text_stringify
        [customer_object example_customer, migrate_object legacy_object] Map.empty)
     = ([customer_object example_customer, migrate_object legacy_object], []) \<and>
   init_emails one_text_parse (persist_emails one_text_stringify [] Map.empty) = (JArr [], []) \<and>
   migrate_object legacy_object =
     [(''id'', JStr ''1600000000000''), (''customerName'', JStr ''Gyi''),
      (''startDate'', JStr ''2020-09-13''), (''monthsPaid'', JNum 1), (''amount'', JNum 8500),
      (''netflixEmail'', JStr ''netflix1@gmail.com''), (''profileName'', JStr []),
      (''note'', JStr ''09-123456''), (''accountType'', JStr ''Share'')]"
proof -
  note t = save_load_roundtrip [of one_text_parse one_text_stringify
      "[customer_object example_customer, migrate_object legacy_object]" Map.empty
      "[]" "[]" legacy_object example_customer]
  have v: "JArr (map JObj [customer_object example_customer, migrate_object legacy_object])
             = stored_value"
    by (simp add: stored_value_def)
  have h1: "one_text_parse (one_text_stringify
              (JArr (map JObj [customer_object example_customer, migrate_object legacy_object])))
            = Some (JArr (map JObj [customer_object example_customer, migrate_object legacy_object])) \<and>
        one_text_stringify
          (JArr (map JObj [customer_object example_customer, migrate_object legacy_object])) \<noteq> []"
    unfolding v by (simp add: one_text_parse_def one_text_stringify_def)
  have ne: "JArr [] \<noteq> stored_value"
    by (simp add: stored_value_def)
  have h2: "one_text_parse (one_text_stringify (JArr (map JStr []))) = Some (JArr (map JStr [])) \<and>
        one_text_stringify (JArr (map JStr [])) \<noteq> []"
    using ne by (simp add: one_text_parse_def one_text_stringify_def)
  have a: "init_customers one_text_parse
     (persist_customers one_text_stringify
        [customer_object example_customer, migrate_object legacy_object] Map.empty)
     = (map migrate_object [customer_object example_customer, migrate_object legacy_object], [])"
    using t h1 by blast
  have b: "init_emails one_text_parse (persist_emails one_text_stringify [] Map.empty)
             = (JArr (map JStr []), [])"
    using t h2 by blast
  have i: "migrate_object (migrate_object legacy_object) = migrate_object legacy_object"
    and f: "migrate_object (customer_object example_customer) = customer_object example_customer"
    using t by blast+
  have m: "migrate_object legacy_object =
     [(''id'', JStr ''1600000000000''), (''customerName'', JStr ''Gyi''),
      (''startDate'', JStr ''2020-09-13''), (''monthsPaid'', JNum 1), (''amount'', JNum 8500),
      (''netflixEmail'', JStr ''netflix1@gmail.com''), (''profileName'', JStr []),
      (''note'', JStr ''09-123456''), (''accountType'', JStr ''Share'')]"
    by code_simp
  have a': "init_customers one_text_parse
     (persist_customers one_text_stringify
        [customer_object example_customer, migrate_object legacy_object] Map.empty)
     = ([customer_object example_customer, migrate_object legacy_object], [])"
    using a by (simp only: list.map i f)
  have b': "init_emails one_text_parse (persist_emails one_text_stringify [] Map.empty)
              = (JArr [], [])"
    using b by (simp only: list.map)
  from a' b' m show ?thesis
    by (intro conjI)
qed

text \<open>
  C8. A stored text that \<^verbatim>\<open>JSON.parse\<close> rejects never makes loading fail: the customer
  list is empty and the emails are the default pair. The error is logged whenever the text
  is handed to the parser, which is for every text but the empty one. A text that parses
  to something other than an array gives the empty customer list as well.
\<close>

theorem malformed_state_falls_back:
  "(parse s = None \<longrightarrow>
      fst (init_customers parse (storage(''customers'' \<mapsto> s))) = [] \<and>
      fst (init_emails parse (storage(''netflixEmails'' \<mapsto> s))) = default_emails \<and>
      (s \<noteq> [] \<longrightarrow>
         snd (init_customers parse (storage(''customers'' \<mapsto> s))) =
           [''Failed to parse customers from localStorage''] \<and>
         snd (init_emails parse (storage(''netflixEmails'' \<mapsto> s))) =
           [''Failed to parse emails from localStorage''])) \<and>
   (\<forall>v. parse s = Some v \<and> s \<noteq> [] \<and> (\<forall>xs. v \<noteq> JArr xs) \<longrightarrow>
      init_customers parse (storage(''customers'' \<mapsto> s)) =
        ([], [''Failed to parse customers from localStorage'']))"
proof (intro conjI impI allI)
  assume p: "parse s = None"
  show "fst (init_customers parse (storage(''customers'' \<mapsto> s))) = []"
    using p by (simp add: init_customers_def load_customers_def)
  show "fst (init_emails parse (storage(''netflixEmails'' \<mapsto> s))) = default_emails"
    using p by (simp add: init_emails_def load_emails_def)
  assume "s \<noteq> []"
  then show "snd (init_customers parse (storage(''customers'' \<mapsto> s))) =
           [''Failed to parse customers from localStorage'']"
    using p by (simp add: init_customers_def load_customers_def)
  show "snd (init_emails parse (storage(''netflixEmails'' \<mapsto> s))) =
           [''Failed to parse emails from localStorage'']"
    using p \<open>s \<noteq> []\<close> by (simp add: init_emails_def load_emails_def)
next
  fix v
  assume "parse s = Some v \<and> s \<noteq> [] \<and> (\<forall>xs. v \<noteq> JArr xs)"
  then show "init_customers parse (storage(''customers'' \<mapsto> s)) =
        ([], [''Failed to parse customers from localStorage''])"
    by (cases v) (simp_all add: init_customers_def load_customers_def)
qed

theorem malformed_state_falls_back_witness:
  "init_customers one_text_parse (Map.empty(''customers'' \<mapsto> ''{not json''))
     = ([], [''Failed to parse customers from localStorage'']) \<and>
   init_emails one_text_parse (Map.empty(''netflixEmails'' \<mapsto> ''{not json''))
     = (default_emails, [''Failed to parse emails from localStorage''])"
proof -
  have "one_text_parse ''{not json'' = None" and "''{not json'' \<noteq> []"
    by (simp_all add: one_text_parse_def)
  with malformed_state_falls_back [of one_text_parse "''{not json''" Map.empty]
  have "fst (init_customers one_text_parse (Map.empty(''customers'' \<mapsto> ''{not json''))) = []"
    and "fst (init_emails one_text_parse (Map.empty(''netflixEmails'' \<mapsto> ''{not json'')))
           = default_emails"
    and "snd (init_customers one_text_parse (Map.empty(''customers'' \<mapsto> ''{not json''))) =
           [''Failed to parse customers from localStorage'']"
    and "snd (init_emails one_text_parse (Map.empty(''netflixEmails'' \<mapsto> ''{not json''))) =
           [''Failed to parse emails from localStorage'']"
    by blast+
  then show ?thesis
    by (simp add: prod_eq_iff)
qed

end
